theory Spec2Isabelle
  imports Main "HOL-Library.Word"
begin

unbundle bit_operations_syntax

section \<open>Bytes, errors and the stream interfaces\<close>

type_synonym byte = "8 word"
type_synonym uint16 = "16 word"
type_synonym uint32 = "32 word"
type_synonym uint64 = "64 word"

text \<open>
  Error values that the transport and the Go standard library hand to the framing
  helpers. \<open>NetError t\<close> stands for any error value that implements \<open>net.Error\<close>
  (the only thing \<open>write\<close> and \<open>read\<close> ask of an error is the type assertion
  \<open>err.(net.Error)\<close>); its flag says whether the condition is transient (a timeout,
  would-block, interrupted) or fatal (for instance a reset or closed connection,
  which \<open>*net.OpError\<close> also reports as a \<open>net.Error\<close>). \<open>OtherError\<close> is any
  error outside that category.
\<close>

datatype io_error =
    EOF
  | ErrUnexpectedEOF
  | errOverflow
  | NetError bool
  | OtherError nat

text \<open>The type assertion \<open>_, ok := err.(net.Error)\<close>; on a nil error it fails.\<close>

fun is_net_Error :: "io_error option \<Rightarrow> bool" where
  "is_net_Error (Some (NetError t)) = True"
| "is_net_Error _ = False"

text \<open>
  The error values of the codec layer. The four package-level errors of the codec are
  used by name in the codecs; transport errors come up from the framing helpers
  unchanged; the header decoder, the serializer and the compressors return errors of
  their own, told apart here by a code. A run-time panic is an outcome too:
  \<open>make([]byte, size)\<close> panics when the \<open>uint64\<close> size does not fit Go's \<open>int\<close> (the
  run-time's own allocation limit, which is lower and depends on the platform, is not
  modelled), and a method call on a nil interface value panics.
\<close>

datatype panic = MakesliceLenOutOfRange | NilDereference

datatype error =
    IOError io_error
  | NotFoundCompressorError
  | UnexpectedChecksumError
  | CompressorTypeMismatchError
  | InvalidSequenceError
  | HeaderError nat
  | SerializerError nat
  | CompressorError nat
  | Panic panic

text \<open>
  \<open>io.Reader\<close>, \<open>io.ByteReader\<close> and \<open>io.Writer\<close> are interfaces: any object with
  these methods. An object is its state (\<open>'r\<close>, \<open>'w\<close>) together with its methods,
  which return the updated state. \<open>Read io r n\<close> is \<open>r.Read(p)\<close> with \<open>len(p) = n\<close>:
  it yields the bytes stored into \<open>p\<close> (never more than \<open>n\<close>, the slice has no more
  room; the count the call returns is the number of bytes stored) and the error.
  \<open>Write io w p\<close> yields the count the call reports and the error. \<open>Flush\<close> is the
  \<open>bufio.Writer\<close> method; the codecs drop its error.
\<close>

record ('r, 'w) stream_io =
  Read :: "'r \<Rightarrow> nat \<Rightarrow> byte list \<times> io_error option \<times> 'r"
  ReadByte :: "'r \<Rightarrow> byte \<times> io_error option \<times> 'r"
  Write :: "'w \<Rightarrow> byte list \<Rightarrow> nat \<times> io_error option \<times> 'w"
  Flush :: "'w \<Rightarrow> 'w"

section \<open>Unsigned varints (encoding/binary)\<close>

definition MaxVarintLen64 :: nat where
  "MaxVarintLen64 = 10"

text \<open>
  \<open>binary.PutUvarint(buf, x)\<close>: seven bits per byte, least significant group first,
  the top bit set on every byte but the last. The result is \<open>buf[:n]\<close>.
\<close>

function PutUvarint :: "uint64 \<Rightarrow> byte list" where
  "PutUvarint x =
     (if 0x80 \<le> x then (ucast x OR 0x80) # PutUvarint (drop_bit 7 x) else [ucast x])"
  by pat_completeness auto
termination
proof (relation "measure unat")
  show "wf (measure (unat :: uint64 \<Rightarrow> nat))" by simp
next
  fix x :: uint64
  assume "0x80 \<le> x"
  then have "128 \<le> unat x" by (simp add: word_le_nat_alt)
  then have "unat x div 128 < unat x" by simp
  then show "(drop_bit 7 x, x) \<in> measure unat"
    by (simp add: drop_bit_eq_div unat_div)
qed

declare PutUvarint.simps [simp del]

text \<open>
  \<open>binary.ReadUvarint(r)\<close>: the loop \<open>for i := 0; i < MaxVarintLen64; i++\<close> with its
  accumulator \<open>x\<close> and shift \<open>s\<close>.
\<close>

function ReadUvarint_loop ::
  "('r, 'w) stream_io \<Rightarrow> 'r \<Rightarrow> uint64 \<Rightarrow> nat \<Rightarrow> nat \<Rightarrow> uint64 \<times> io_error option \<times> 'r" where
  "ReadUvarint_loop io r x s i =
     (if i < MaxVarintLen64 then
        (case ReadByte io r of (b, err, r') \<Rightarrow>
           (case err of
              Some e \<Rightarrow> (x, Some (if 0 < i \<and> e = EOF then ErrUnexpectedEOF else e), r')
            | None \<Rightarrow>
                if b < 0x80 then
                  (if i = MaxVarintLen64 - 1 \<and> 1 < b then (x, Some errOverflow, r')
                   else (x OR push_bit s (ucast b), None, r'))
                else ReadUvarint_loop io r' (x OR push_bit s (ucast (b AND 0x7f))) (s + 7) (i + 1)))
      else (x, Some errOverflow, r))"
  by pat_completeness auto
termination
  by (relation "measure (\<lambda>(io, r, x, s, i). MaxVarintLen64 - i)") auto

declare ReadUvarint_loop.simps [simp del]

definition ReadUvarint :: "('r, 'w) stream_io \<Rightarrow> 'r \<Rightarrow> uint64 \<times> io_error option \<times> 'r" where
  "ReadUvarint io r = ReadUvarint_loop io r 0 0 0"

section \<open>The framing helpers (codec/io.go)\<close>

text \<open>
  \<open>write(w, data)\<close>, here \<open>write_bytes\<close> (\<open>write\<close> is a word of the proof language):
  the loop \<open>for index := 0; index < len(data); { ... }\<close>. The loop need not end (a
  writer may report a \<open>net.Error\<close> for ever), so not returning is the value \<open>None\<close>.
\<close>

partial_function (option) write_loop ::
  "('r, 'w) stream_io \<Rightarrow> 'w \<Rightarrow> byte list \<Rightarrow> nat \<Rightarrow> (io_error option \<times> 'w) option" where
  "write_loop io w data index =
     (if index < length data then
        (case Write io w (drop index data) of (n, err, w') \<Rightarrow>
           if \<not> is_net_Error err then Some (err, w')
           else write_loop io w' data (index + n))
      else Some (None, w))"

definition write_bytes :: "('r, 'w) stream_io \<Rightarrow> 'w \<Rightarrow> byte list \<Rightarrow> (io_error option \<times> 'w) option" where
  "write_bytes io w data = write_loop io w data 0"

text \<open>
  \<open>read(r, data)\<close>: \<open>data\<close> is the caller's buffer; each \<open>r.Read(data[index:])\<close>
  stores its bytes at \<open>index\<close>. The buffer as filled so far is returned with the
  error.
\<close>

definition store :: "byte list \<Rightarrow> nat \<Rightarrow> byte list \<Rightarrow> byte list" where
  "store data index chunk = take index data @ chunk @ drop (index + length chunk) data"

partial_function (option) read_loop ::
  "('r, 'w) stream_io \<Rightarrow> 'r \<Rightarrow> byte list \<Rightarrow> nat \<Rightarrow> (io_error option \<times> byte list \<times> 'r) option" where
  "read_loop io r data index =
     (if index < length data then
        (case Read io r (length data - index) of (bs, err, r') \<Rightarrow>
           let chunk = take (length data - index) bs; n = length chunk; data' = store data index chunk in
           if err \<noteq> None \<and> \<not> is_net_Error err then Some (err, data', r')
           else read_loop io r' data' (index + n))
      else Some (None, data, r))"

definition read :: "('r, 'w) stream_io \<Rightarrow> 'r \<Rightarrow> byte list \<Rightarrow> (io_error option \<times> byte list \<times> 'r) option" where
  "read io r data = read_loop io r data 0"

text \<open>\<open>sendFrame(w, data)\<close>: the length as a uvarint, then the bytes.\<close>

definition sendFrame :: "('r, 'w) stream_io \<Rightarrow> 'w \<Rightarrow> byte list \<Rightarrow> (io_error option \<times> 'w) option" where
  "sendFrame io w data =
     (if length data = 0 then write_bytes io w (PutUvarint 0)
      else
        (case write_bytes io w (PutUvarint (of_nat (length data))) of
           None \<Rightarrow> None
         | Some (err, w') \<Rightarrow> if err \<noteq> None then Some (err, w') else write_bytes io w' data))"

text \<open>
  \<open>recvFrame(r)\<close>: the length as a uvarint, then that many bytes into a fresh buffer;
  for length 0 no buffer is made and nothing more is read.
\<close>

definition recvFrame ::
  "('r, 'w) stream_io \<Rightarrow> 'r \<Rightarrow> ((error + byte list) \<times> 'r) option" where
  "recvFrame io r =
     (case ReadUvarint io r of
        (sz, Some err, r') \<Rightarrow> Some (Inl (IOError err), r')
      | (sz, None, r') \<Rightarrow>
          if sz \<noteq> 0 then
            (if 2 ^ 63 \<le> unat sz then Some (Inl (Panic MakesliceLenOutOfRange), r')
             else
               (case read io r' (replicate (unat sz) 0) of
                  None \<Rightarrow> None
                | Some (Some err, data, r'') \<Rightarrow> Some (Inl (IOError err), r'')
                | Some (None, data, r'') \<Rightarrow> Some (Inr data, r'')))
          else Some (Inr [], r'))"

section \<open>Checksums (hash/crc32)\<close>

text \<open>
  \<open>crc32.ChecksumIEEE\<close> as the standard library's table-driven update computes it:
  the table entry of a byte is eight shift-and-conditionally-xor steps with the
  reflected polynomial, and the running value is complemented on entry and exit.
\<close>

definition IEEE :: uint32 where
  "IEEE = 0xedb88320"

definition crc_shift :: "uint32 \<Rightarrow> uint32" where
  "crc_shift crc = (if crc AND 1 = 1 then drop_bit 1 crc XOR IEEE else drop_bit 1 crc)"

definition IEEETable :: "byte \<Rightarrow> uint32" where
  "IEEETable i = (crc_shift ^^ 8) (ucast i)"

definition simpleUpdate :: "uint32 \<Rightarrow> byte list \<Rightarrow> uint32" where
  "simpleUpdate crc p =
     NOT (fold (\<lambda>v c. IEEETable (ucast c XOR v) XOR drop_bit 8 c) p (NOT crc))"

definition ChecksumIEEE :: "byte list \<Rightarrow> uint32" where
  "ChecksumIEEE data = simpleUpdate 0 data"

section \<open>Headers, compressors and the serializer\<close>

type_synonym CompressType = uint16

text \<open>
  Modelled from the spec: the header package is not among the sources. The fields are
  the ones the codecs assign and read (\<open>ID\<close>, \<open>Method\<close> or \<open>Error\<close>, \<open>RequestLen\<close> or
  \<open>ResponseLen\<close>, \<open>CompressType\<close>, \<open>Checksum\<close>) with the widths of the spec's data
  model. \<open>ResetHeader\<close> zeroes every field. \<open>GetCompressType\<close> reads the field.
\<close>

record RequestHeader =
  CompressType :: CompressType
  Method :: string
  ID :: uint64
  RequestLen :: uint32
  Checksum :: uint32

record ResponseHeader =
  CompressType :: CompressType
  Error :: string
  ID :: uint64
  ResponseLen :: uint32
  Checksum :: uint32

definition RequestHeader_ResetHeader :: RequestHeader where
  "RequestHeader_ResetHeader =
     \<lparr> RequestHeader.CompressType = 0, Method = [], RequestHeader.ID = 0, RequestLen = 0,
       RequestHeader.Checksum = 0 \<rparr>"

definition ResponseHeader_ResetHeader :: ResponseHeader where
  "ResponseHeader_ResetHeader =
     \<lparr> ResponseHeader.CompressType = 0, Error = [], ResponseHeader.ID = 0, ResponseLen = 0,
       ResponseHeader.Checksum = 0 \<rparr>"

text \<open>
  A compressor is an object with \<open>Zip\<close> and \<open>Unzip\<close>; each returns the bytes or an
  error (a code).
\<close>

record Compressor =
  Zip :: "byte list \<Rightarrow> nat + byte list"
  Unzip :: "byte list \<Rightarrow> nat + byte list"

text \<open>
  What the codecs take from the packages that are not among the sources: the
  registry \<open>compressor.Compressors\<close> (a Go map, so a partial function), the
  serializer's \<open>Marshal\<close> and \<open>Unmarshal\<close> on values of type \<open>'v\<close> (\<open>None\<close> is Go's
  nil \<open>any\<close>; \<open>Unmarshal\<close> yields the value stored into the target), and the headers'
  \<open>Marshal\<close> and \<open>Unmarshal\<close> (\<open>Unmarshal\<close> works on the header it is called on and
  leaves it as far as it got, with the error if any). They are parameters of every
  codec operation.
\<close>

record 'v codec_env =
  Compressors :: "CompressType \<Rightarrow> Compressor option"
  Marshal :: "'v option \<Rightarrow> nat + byte list"
  Unmarshal :: "byte list \<Rightarrow> nat + 'v"
  RequestHeader_Marshal :: "RequestHeader \<Rightarrow> byte list"
  RequestHeader_Unmarshal :: "RequestHeader \<Rightarrow> byte list \<Rightarrow> nat option \<times> RequestHeader"
  ResponseHeader_Marshal :: "ResponseHeader \<Rightarrow> byte list"
  ResponseHeader_Unmarshal :: "ResponseHeader \<Rightarrow> byte list \<Rightarrow> nat option \<times> ResponseHeader"

text \<open>\<open>rpc.Request\<close> and \<open>rpc.Response\<close> of net/rpc, as far as the codecs touch them.\<close>

record Request =
  ServiceMethod :: string
  Seq :: uint64

record Response =
  ServiceMethod :: string
  Seq :: uint64
  Error :: string

section \<open>The client codec\<close>

record ('r, 'w) clientCodec =
  reader :: 'r
  writer :: 'w
  compressor :: CompressType
  response :: ResponseHeader
  pending :: "uint64 \<Rightarrow> string option"

definition NewClientCodec :: "'r \<Rightarrow> 'w \<Rightarrow> CompressType \<Rightarrow> ('r, 'w) clientCodec" where
  "NewClientCodec r w compressType =
     \<lparr> clientCodec.reader = r, clientCodec.writer = w, compressor = compressType,
       response = ResponseHeader_ResetHeader, clientCodec.pending = Map.empty \<rparr>"

text \<open>
  \<open>WriteRequest\<close>. The result is the returned error (\<open>None\<close> for nil) and the codec
  afterwards; \<open>None\<close> as a whole when a framing loop does not return.
\<close>

definition clientCodec_WriteRequest ::
  "('r, 'w) stream_io \<Rightarrow> 'v codec_env \<Rightarrow> ('r, 'w) clientCodec \<Rightarrow> Request \<Rightarrow> 'v option
     \<Rightarrow> (error option \<times> ('r, 'w) clientCodec) option" where
  "clientCodec_WriteRequest io env c r param =
     (let c1 = c\<lparr> clientCodec.pending :=
                  (clientCodec.pending c)(Request.Seq r \<mapsto> Request.ServiceMethod r) \<rparr>
      in
      case Compressors env (compressor c1) of
        None \<Rightarrow> Some (Some NotFoundCompressorError, c1)
      | Some compr \<Rightarrow>
          (case Marshal env param of
             Inl e \<Rightarrow> Some (Some (SerializerError e), c1)
           | Inr reqBody \<Rightarrow>
               (case Zip compr reqBody of
                  Inl e \<Rightarrow> Some (Some (CompressorError e), c1)
                | Inr compressedReqBody \<Rightarrow>
                    let h = \<lparr> RequestHeader.CompressType = compressor c1,
                              Method = Request.ServiceMethod r,
                              RequestHeader.ID = Request.Seq r,
                              RequestLen = of_nat (length compressedReqBody),
                              RequestHeader.Checksum = ChecksumIEEE compressedReqBody \<rparr>
                    in
                    (case sendFrame io (clientCodec.writer c1) (RequestHeader_Marshal env h) of
                       None \<Rightarrow> None
                     | Some (Some err, w1) \<Rightarrow>
                         Some (Some (IOError err), c1\<lparr> clientCodec.writer := w1 \<rparr>)
                     | Some (None, w1) \<Rightarrow>
                         (case write_bytes io w1 compressedReqBody of
                            None \<Rightarrow> None
                          | Some (Some err, w2) \<Rightarrow>
                              Some (Some (IOError err), c1\<lparr> clientCodec.writer := w2 \<rparr>)
                          | Some (None, w2) \<Rightarrow>
                              Some (None, c1\<lparr> clientCodec.writer := Flush io w2 \<rparr>))))))"

text \<open>
  \<open>ReadResponseHeader\<close>. A Go map read of a missing key gives the zero value, the
  empty string, and \<open>delete\<close> of a missing key does nothing.
\<close>

definition clientCodec_ReadResponseHeader ::
  "('r, 'w) stream_io \<Rightarrow> 'v codec_env \<Rightarrow> ('r, 'w) clientCodec \<Rightarrow> Response
     \<Rightarrow> (error option \<times> Response \<times> ('r, 'w) clientCodec) option" where
  "clientCodec_ReadResponseHeader io env c resp =
     (let c0 = c\<lparr> response := ResponseHeader_ResetHeader \<rparr> in
      case recvFrame io (clientCodec.reader c0) of
        None \<Rightarrow> None
      | Some (Inl err, r1) \<Rightarrow> Some (Some err, resp, c0\<lparr> clientCodec.reader := r1 \<rparr>)
      | Some (Inr data, r1) \<Rightarrow>
          (case ResponseHeader_Unmarshal env (response c0) data of
             (Some e, h) \<Rightarrow>
               Some (Some (HeaderError e), resp, c0\<lparr> clientCodec.reader := r1, response := h \<rparr>)
           | (None, h) \<Rightarrow>
               let resp1 = resp\<lparr> Response.Seq := ResponseHeader.ID h \<rparr>;
                   resp2 = resp1\<lparr> Response.Error := ResponseHeader.Error h \<rparr>;
                   resp3 = resp2\<lparr> Response.ServiceMethod :=
                             (case clientCodec.pending c0 (Response.Seq resp2) of
                                None \<Rightarrow> [] | Some m \<Rightarrow> m) \<rparr>
               in
               Some (None, resp3,
                     c0\<lparr> clientCodec.reader := r1, response := h,
                         clientCodec.pending := (clientCodec.pending c0)(Response.Seq resp3 := None) \<rparr>)))"

text \<open>
  \<open>ReadResponseBody\<close>. The argument says whether \<open>param\<close> is non-nil; the value
  unmarshalled into it is part of the result.
\<close>

definition clientCodec_ReadResponseBody ::
  "('r, 'w) stream_io \<Rightarrow> 'v codec_env \<Rightarrow> ('r, 'w) clientCodec \<Rightarrow> bool
     \<Rightarrow> (error option \<times> 'v option \<times> ('r, 'w) clientCodec) option" where
  "clientCodec_ReadResponseBody io env c param =
     (if \<not> param then
        (if ResponseLen (response c) \<noteq> 0 then
           (case read io (clientCodec.reader c)
                   (replicate (unat (ResponseLen (response c))) 0) of
              None \<Rightarrow> None
            | Some (Some err, data, r1) \<Rightarrow>
                Some (Some (IOError err), None, c\<lparr> clientCodec.reader := r1 \<rparr>)
            | Some (None, data, r1) \<Rightarrow> Some (None, None, c\<lparr> clientCodec.reader := r1 \<rparr>))
         else Some (None, None, c))
      else
        (case read io (clientCodec.reader c)
                (replicate (unat (ResponseLen (response c))) 0) of
           None \<Rightarrow> None
         | Some (Some err, data, r1) \<Rightarrow>
             Some (Some (IOError err), None, c\<lparr> clientCodec.reader := r1 \<rparr>)
         | Some (None, respBody, r1) \<Rightarrow>
             let c1 = c\<lparr> clientCodec.reader := r1 \<rparr> in
             if ResponseHeader.Checksum (response c) \<noteq> 0
                \<and> ChecksumIEEE respBody \<noteq> ResponseHeader.Checksum (response c)
             then Some (Some UnexpectedChecksumError, None, c1)
             else if ResponseHeader.CompressType (response c) \<noteq> compressor c
             then Some (Some CompressorTypeMismatchError, None, c1)
             else
               (case Compressors env (ResponseHeader.CompressType (response c)) of
                  None \<Rightarrow> Some (Some (Panic NilDereference), None, c1)
                | Some compr \<Rightarrow>
                    (case Unzip compr respBody of
                       Inl e \<Rightarrow> Some (Some (CompressorError e), None, c1)
                     | Inr resp \<Rightarrow>
                         (case Unmarshal env resp of
                            Inl e \<Rightarrow> Some (Some (SerializerError e), None, c1)
                          | Inr v \<Rightarrow> Some (None, Some v, c1))))))"

section \<open>The server codec\<close>

record reqCtx =
  requestId :: uint64
  compressType :: CompressType

record ('r, 'w) serverCodec =
  reader :: 'r
  writer :: 'w
  request :: RequestHeader
  seq :: uint64
  pending :: "uint64 \<Rightarrow> reqCtx option"

definition NewServerCodec :: "'r \<Rightarrow> 'w \<Rightarrow> ('r, 'w) serverCodec" where
  "NewServerCodec r w =
     \<lparr> serverCodec.reader = r, serverCodec.writer = w, request = RequestHeader_ResetHeader,
       seq = 0, serverCodec.pending = Map.empty \<rparr>"

text \<open>
  \<open>ReadRequestHeader\<close>: the header is reset, a frame is received and decoded, and
  only then the counter is incremented (a \<open>uint64\<close>, so it wraps), the context is
  stored under the new value and the request gets the method and the new value.
\<close>

definition serverCodec_ReadRequestHeader ::
  "('r, 'w) stream_io \<Rightarrow> 'v codec_env \<Rightarrow> ('r, 'w) serverCodec \<Rightarrow> Request
     \<Rightarrow> (error option \<times> Request \<times> ('r, 'w) serverCodec) option" where
  "serverCodec_ReadRequestHeader io env s req =
     (let s0 = s\<lparr> request := RequestHeader_ResetHeader \<rparr> in
      case recvFrame io (serverCodec.reader s0) of
        None \<Rightarrow> None
      | Some (Inl err, r1) \<Rightarrow> Some (Some err, req, s0\<lparr> serverCodec.reader := r1 \<rparr>)
      | Some (Inr data, r1) \<Rightarrow>
          (case RequestHeader_Unmarshal env (request s0) data of
             (Some e, h) \<Rightarrow>
               Some (Some (HeaderError e), req, s0\<lparr> serverCodec.reader := r1, request := h \<rparr>)
           | (None, h) \<Rightarrow>
               let s1 = s0\<lparr> serverCodec.reader := r1, request := h \<rparr>;
                   s2 = s1\<lparr> seq := seq s1 + 1 \<rparr>;
                   s3 = s2\<lparr> serverCodec.pending := (serverCodec.pending s2)
                           (seq s2 \<mapsto> \<lparr> requestId = RequestHeader.ID (request s2),
                                        compressType = RequestHeader.CompressType (request s2) \<rparr>) \<rparr>;
                   req1 = req\<lparr> Request.ServiceMethod := Method (request s3) \<rparr>;
                   req2 = req1\<lparr> Request.Seq := seq s3 \<rparr>
               in Some (None, req2, s3)))"

text \<open>
  \<open>ReadRequestBody\<close>: as the client's body read, with the registry lookup in place
  of the comparison with a configured compressor.
\<close>

definition serverCodec_ReadRequestBody ::
  "('r, 'w) stream_io \<Rightarrow> 'v codec_env \<Rightarrow> ('r, 'w) serverCodec \<Rightarrow> bool
     \<Rightarrow> (error option \<times> 'v option \<times> ('r, 'w) serverCodec) option" where
  "serverCodec_ReadRequestBody io env s param =
     (if \<not> param then
        (if RequestLen (request s) \<noteq> 0 then
           (case read io (serverCodec.reader s)
                   (replicate (unat (RequestLen (request s))) 0) of
              None \<Rightarrow> None
            | Some (Some err, data, r1) \<Rightarrow>
                Some (Some (IOError err), None, s\<lparr> serverCodec.reader := r1 \<rparr>)
            | Some (None, data, r1) \<Rightarrow> Some (None, None, s\<lparr> serverCodec.reader := r1 \<rparr>))
         else Some (None, None, s))
      else
        (case read io (serverCodec.reader s)
                (replicate (unat (RequestLen (request s))) 0) of
           None \<Rightarrow> None
         | Some (Some err, data, r1) \<Rightarrow>
             Some (Some (IOError err), None, s\<lparr> serverCodec.reader := r1 \<rparr>)
         | Some (None, reqBody, r1) \<Rightarrow>
             let s1 = s\<lparr> serverCodec.reader := r1 \<rparr> in
             if RequestHeader.Checksum (request s) \<noteq> 0
                \<and> ChecksumIEEE reqBody \<noteq> RequestHeader.Checksum (request s)
             then Some (Some UnexpectedChecksumError, None, s1)
             else
               (case Compressors env (RequestHeader.CompressType (request s)) of
                  None \<Rightarrow> Some (Some NotFoundCompressorError, None, s1)
                | Some compr \<Rightarrow>
                    (case Unzip compr reqBody of
                       Inl e \<Rightarrow> Some (Some (CompressorError e), None, s1)
                     | Inr req \<Rightarrow>
                         (case Unmarshal env req of
                            Inl e \<Rightarrow> Some (Some (SerializerError e), None, s1)
                          | Inr v \<Rightarrow> Some (None, Some v, s1))))))"

text \<open>
  \<open>WriteResponse\<close>: the pending entry is taken and removed first; a non-empty error
  makes \<open>param\<close> nil; a nil \<open>param\<close> leaves \<open>respBody\<close> nil, which is compressed all
  the same.
\<close>

definition serverCodec_WriteResponse ::
  "('r, 'w) stream_io \<Rightarrow> 'v codec_env \<Rightarrow> ('r, 'w) serverCodec \<Rightarrow> Response \<Rightarrow> 'v option
     \<Rightarrow> (error option \<times> ('r, 'w) serverCodec) option" where
  "serverCodec_WriteResponse io env s resp param0 =
     (case serverCodec.pending s (Response.Seq resp) of
        None \<Rightarrow> Some (Some InvalidSequenceError, s)
      | Some ctx \<Rightarrow>
          let s1 = s\<lparr> serverCodec.pending := (serverCodec.pending s)(Response.Seq resp := None) \<rparr>;
              param = (if Response.Error resp \<noteq> [] then None else param0)
          in
          (case Compressors env (compressType ctx) of
             None \<Rightarrow> Some (Some NotFoundCompressorError, s1)
           | Some compr \<Rightarrow>
               (case (case param of None \<Rightarrow> Inr [] | Some v \<Rightarrow> Marshal env param) of
                  Inl e \<Rightarrow> Some (Some (SerializerError e), s1)
                | Inr respBody \<Rightarrow>
                    (case Zip compr respBody of
                       Inl e \<Rightarrow> Some (Some (CompressorError e), s1)
                     | Inr compressedRespBody \<Rightarrow>
                         let h = \<lparr> ResponseHeader.CompressType = compressType ctx,
                                   ResponseHeader.Error = Response.Error resp,
                                   ResponseHeader.ID = requestId ctx,
                                   ResponseLen = of_nat (length compressedRespBody),
                                   ResponseHeader.Checksum = ChecksumIEEE compressedRespBody \<rparr>
                         in
                         (case sendFrame io (serverCodec.writer s1) (ResponseHeader_Marshal env h) of
                            None \<Rightarrow> None
                          | Some (Some err, w1) \<Rightarrow>
                              Some (Some (IOError err), s1\<lparr> serverCodec.writer := w1 \<rparr>)
                          | Some (None, w1) \<Rightarrow>
                              (case write_bytes io w1 compressedRespBody of
                                 None \<Rightarrow> None
                               | Some (Some err, w2) \<Rightarrow>
                                   Some (Some (IOError err), s1\<lparr> serverCodec.writer := w2 \<rparr>)
                               | Some (None, w2) \<Rightarrow>
                                   Some (None, s1\<lparr> serverCodec.writer := Flush io w2 \<rparr>)))))))"

section \<open>Streams, contracts and an environment to run the code on\<close>

subsection \<open>An in-memory stream\<close>

text \<open>
  A byte queue that is writer and reader at once, behaving as \<open>bytes.Buffer\<close> does:
  \<open>Write\<close> appends and never fails; \<open>Read\<close> hands over what is there, up to the room
  in the slice, and reports \<open>io.EOF\<close> on an empty queue (unless the slice is empty);
  \<open>ReadByte\<close> takes one byte or reports \<open>io.EOF\<close>.
\<close>

definition buf_Read :: "byte list \<Rightarrow> nat \<Rightarrow> byte list \<times> io_error option \<times> byte list" where
  "buf_Read s n =
     (if s = [] then (if n = 0 then ([], None, s) else ([], Some EOF, s))
      else (take n s, None, drop n s))"

definition buf_ReadByte :: "byte list \<Rightarrow> byte \<times> io_error option \<times> byte list" where
  "buf_ReadByte s = (case s of [] \<Rightarrow> (0, Some EOF, s) | b # s' \<Rightarrow> (b, None, s'))"

definition buf_Write :: "byte list \<Rightarrow> byte list \<Rightarrow> nat \<times> io_error option \<times> byte list" where
  "buf_Write s p = (length p, None, s @ p)"

definition buffer_io :: "(byte list, byte list) stream_io" where
  "buffer_io = \<lparr> Read = buf_Read, ReadByte = buf_ReadByte, Write = buf_Write, Flush = (\<lambda>s. s) \<rparr>"

subsection \<open>A transport that follows a script\<close>

text \<open>
  A reader and a writer whose next calls are scripted: an entry \<open>(k, err)\<close> makes the
  next call move at most \<open>k\<close> bytes and report \<open>err\<close>. With the script used up they
  behave as the in-memory stream. A scripted \<open>Write\<close> always reports an error, as
  \<open>io.Writer\<close> demands of a short write.
\<close>

type_synonym script_reader = "(nat \<times> io_error option) list \<times> byte list"
type_synonym script_writer = "(nat \<times> io_error) list \<times> byte list"

definition script_Read :: "script_reader \<Rightarrow> nat \<Rightarrow> byte list \<times> io_error option \<times> script_reader" where
  "script_Read r n =
     (case r of
        ([], inp) \<Rightarrow> (case buf_Read inp n of (bs, err, inp') \<Rightarrow> (bs, err, ([], inp')))
      | ((k, err) # evs, inp) \<Rightarrow> (take (min k n) inp, err, (evs, drop (min k n) inp)))"

definition script_ReadByte :: "script_reader \<Rightarrow> byte \<times> io_error option \<times> script_reader" where
  "script_ReadByte r =
     (case r of (evs, inp) \<Rightarrow>
        (case buf_ReadByte inp of (b, err, inp') \<Rightarrow> (b, err, (evs, inp'))))"

definition script_Write :: "script_writer \<Rightarrow> byte list \<Rightarrow> nat \<times> io_error option \<times> script_writer" where
  "script_Write w p =
     (case w of
        ([], out) \<Rightarrow> (length p, None, ([], out @ p))
      | ((k, e) # evs, out) \<Rightarrow> (min k (length p), Some e, (evs, out @ take k p)))"

definition script_io :: "(script_reader, script_writer) stream_io" where
  "script_io =
     \<lparr> Read = script_Read, ReadByte = script_ReadByte, Write = script_Write, Flush = (\<lambda>w. w) \<rparr>"

text \<open>
  A transport on which every call reports the same fatal \<open>net.Error\<close> and moves no
  byte, as a connection that has been reset does from then on.
\<close>

definition stuck_io :: "(unit, unit) stream_io" where
  "stuck_io =
     \<lparr> Read = (\<lambda>r n. ([], Some (NetError False), r)),
       ReadByte = (\<lambda>r. (0, Some (NetError False), r)),
       Write = (\<lambda>w p. (0, Some (NetError False), w)),
       Flush = (\<lambda>w. w) \<rparr>"

subsection \<open>The contracts of \<open>io.Reader\<close> and \<open>io.Writer\<close>\<close>

text \<open>
  A reader hands out a stream: \<open>unread r\<close> is what it has yet to hand out, and every
  \<open>Read\<close> returns the next bytes of it. A writer honours the \<open>io.Writer\<close> contract:
  \<open>accepted w\<close> is what it has taken so far, every \<open>Write\<close> takes a prefix of its
  argument, reports its length, and reports an error when it took less than all.
\<close>

definition reader_law :: "('r, 'w) stream_io \<Rightarrow> ('r \<Rightarrow> byte list) \<Rightarrow> bool" where
  "reader_law io unread \<longleftrightarrow>
     (\<forall>r n. case Read io r n of (bs, err, r') \<Rightarrow> unread r = take n bs @ unread r')"

definition writer_law :: "('r, 'w) stream_io \<Rightarrow> ('w \<Rightarrow> byte list) \<Rightarrow> bool" where
  "writer_law io accepted \<longleftrightarrow>
     (\<forall>w p. case Write io w p of (n, err, w') \<Rightarrow>
        n \<le> length p \<and> accepted w' = accepted w @ take n p \<and> (err = None \<longrightarrow> n = length p))"

text \<open>
  An \<open>io.ByteReader\<close> over the same stream: a \<open>ReadByte\<close> that reports no error has
  returned the next byte of it.
\<close>

definition byte_reader_law :: "('r, 'w) stream_io \<Rightarrow> ('r \<Rightarrow> byte list) \<Rightarrow> bool" where
  "byte_reader_law io unread \<longleftrightarrow>
     (\<forall>r. case ReadByte io r of (b, err, r') \<Rightarrow> err = None \<longrightarrow> unread r = b # unread r')"

text \<open>What a returned \<open>read\<close> and a returned \<open>write\<close> have done, in those terms.\<close>

definition read_post ::
  "('r \<Rightarrow> byte list) \<Rightarrow> 'r \<Rightarrow> byte list \<Rightarrow> nat \<Rightarrow> io_error option \<times> byte list \<times> 'r \<Rightarrow> bool" where
  "read_post unread r data index y =
     (case y of (err, data', r') \<Rightarrow>
        length data' = length data \<and> take index data' = take index data \<and>
        \<not> is_net_Error err \<and>
        (\<exists>k. index + k \<le> length data \<and> unread r = take k (drop index data') @ unread r' \<and>
             (err = None \<longrightarrow> index + k = length data)))"

definition write_post ::
  "('w \<Rightarrow> byte list) \<Rightarrow> 'w \<Rightarrow> byte list \<Rightarrow> nat \<Rightarrow> io_error option \<times> 'w \<Rightarrow> bool" where
  "write_post accepted w data index y =
     (case y of (err, w') \<Rightarrow>
        \<not> is_net_Error err \<and>
        (\<exists>k. index + k \<le> length data \<and> accepted w' = accepted w @ take k (drop index data) \<and>
             (err = None \<longrightarrow> index + k = length data)))"

subsection \<open>An environment\<close>

text \<open>
  Modelled from the spec: the header encoding (the header package is not among the
  sources), in the layout the spec recommends, all integers little-endian:
  \<open>id:u64 | len:u32 | method or error | body_len:u32 | compress_type:u16 | checksum:u32\<close>.
\<close>

definition le_bytes :: "nat \<Rightarrow> 'a::len word \<Rightarrow> byte list" where
  "le_bytes n w = map (\<lambda>k. ucast (drop_bit (8 * k) w)) [0..<n]"

definition le_word :: "byte list \<Rightarrow> 'a::len word" where
  "le_word bs = foldr (\<lambda>b acc. ucast b OR push_bit 8 acc) bs 0"

definition str_bytes :: "string \<Rightarrow> byte list" where
  "str_bytes s = map (\<lambda>c. of_nat (of_char c)) s"

definition bytes_str :: "byte list \<Rightarrow> string" where
  "bytes_str bs = map (\<lambda>b. char_of (unat b)) bs"

definition layout_RequestHeader_Marshal :: "RequestHeader \<Rightarrow> byte list" where
  "layout_RequestHeader_Marshal h =
     le_bytes 8 (RequestHeader.ID h) @ le_bytes 4 (of_nat (length (Method h)) :: uint32)
     @ str_bytes (Method h) @ le_bytes 4 (RequestLen h)
     @ le_bytes 2 (RequestHeader.CompressType h) @ le_bytes 4 (RequestHeader.Checksum h)"

definition layout_RequestHeader_Unmarshal ::
  "RequestHeader \<Rightarrow> byte list \<Rightarrow> nat option \<times> RequestHeader" where
  "layout_RequestHeader_Unmarshal h data =
     (if length data < 12 then (Some 0, h)
      else
        let n = unat (le_word (take 4 (drop 8 data)) :: uint32) in
        if length data \<noteq> n + 22 then (Some 0, h)
        else (None,
              \<lparr> RequestHeader.CompressType = le_word (take 2 (drop (n + 16) data)),
                Method = bytes_str (take n (drop 12 data)),
                RequestHeader.ID = le_word (take 8 data),
                RequestLen = le_word (take 4 (drop (n + 12) data)),
                RequestHeader.Checksum = le_word (take 4 (drop (n + 18) data)) \<rparr>))"

definition layout_ResponseHeader_Marshal :: "ResponseHeader \<Rightarrow> byte list" where
  "layout_ResponseHeader_Marshal h =
     le_bytes 8 (ResponseHeader.ID h) @ le_bytes 4 (of_nat (length (ResponseHeader.Error h)) :: uint32)
     @ str_bytes (ResponseHeader.Error h) @ le_bytes 4 (ResponseLen h)
     @ le_bytes 2 (ResponseHeader.CompressType h) @ le_bytes 4 (ResponseHeader.Checksum h)"

definition layout_ResponseHeader_Unmarshal ::
  "ResponseHeader \<Rightarrow> byte list \<Rightarrow> nat option \<times> ResponseHeader" where
  "layout_ResponseHeader_Unmarshal h data =
     (if length data < 12 then (Some 0, h)
      else
        let n = unat (le_word (take 4 (drop 8 data)) :: uint32) in
        if length data \<noteq> n + 22 then (Some 0, h)
        else (None,
              \<lparr> ResponseHeader.CompressType = le_word (take 2 (drop (n + 16) data)),
                ResponseHeader.Error = bytes_str (take n (drop 12 data)),
                ResponseHeader.ID = le_word (take 8 data),
                ResponseLen = le_word (take 4 (drop (n + 12) data)),
                ResponseHeader.Checksum = le_word (take 4 (drop (n + 18) data)) \<rparr>))"

text \<open>
  Two compressors: the identity, which the spec reserves tag 0 for, and one that puts
  a marker byte in front, as a compressing format puts its own header in front even of
  an empty input. The serializer is the identity on byte strings, nil marshalling to
  the empty string.
\<close>

definition raw_compressor :: Compressor where
  "raw_compressor = \<lparr> Zip = Inr, Unzip = Inr \<rparr>"

definition marker_compressor :: Compressor where
  "marker_compressor =
     \<lparr> Zip = (\<lambda>bs. Inr (0x1f # bs)),
       Unzip = (\<lambda>bs. case bs of [] \<Rightarrow> Inl 0 | b # bs' \<Rightarrow> if b = 0x1f then Inr bs' else Inl 0) \<rparr>"

definition example_env :: "byte list codec_env" where
  "example_env =
     \<lparr> Compressors = (\<lambda>t. if t = 0 then Some raw_compressor
                          else if t = 1 then Some marker_compressor else None),
       Marshal = (\<lambda>v. case v of None \<Rightarrow> Inr [] | Some bs \<Rightarrow> Inr bs),
       Unmarshal = Inr,
       RequestHeader_Marshal = layout_RequestHeader_Marshal,
       RequestHeader_Unmarshal = layout_RequestHeader_Unmarshal,
       ResponseHeader_Marshal = layout_ResponseHeader_Marshal,
       ResponseHeader_Unmarshal = layout_ResponseHeader_Unmarshal \<rparr>"

subsection \<open>A run of calls on one server codec\<close>

text \<open>
  The dispatcher's calls on one connection, in any order, and what each returned: the
  error, and for a \<open>ReadRequestHeader\<close> that returned nil the \<open>Seq\<close> it put into the
  request.
\<close>

datatype 'v call =
    ReadRequestHeader Request
  | ReadRequestBody bool
  | WriteResponse Response "'v option"

definition serve_call ::
  "('r, 'w) stream_io \<Rightarrow> 'v codec_env \<Rightarrow> ('r, 'w) serverCodec \<Rightarrow> 'v call
     \<Rightarrow> ((error option \<times> uint64 option) \<times> ('r, 'w) serverCodec) option" where
  "serve_call io env s c =
     (case c of
        ReadRequestHeader req \<Rightarrow>
          (case serverCodec_ReadRequestHeader io env s req of
             None \<Rightarrow> None
           | Some (err, req', s') \<Rightarrow>
               Some ((err, if err = None then Some (Request.Seq req') else None), s'))
      | ReadRequestBody param \<Rightarrow>
          (case serverCodec_ReadRequestBody io env s param of
             None \<Rightarrow> None
           | Some (err, v, s') \<Rightarrow> Some ((err, None), s'))
      | WriteResponse resp param \<Rightarrow>
          (case serverCodec_WriteResponse io env s resp param of
             None \<Rightarrow> None
           | Some (err, s') \<Rightarrow> Some ((err, None), s')))"

fun serve ::
  "('r, 'w) stream_io \<Rightarrow> 'v codec_env \<Rightarrow> ('r, 'w) serverCodec \<Rightarrow> 'v call list
     \<Rightarrow> ((error option \<times> uint64 option) list \<times> ('r, 'w) serverCodec) option" where
  "serve io env s [] = Some ([], s)"
| "serve io env s (c # cs) =
     (case serve_call io env s c of
        None \<Rightarrow> None
      | Some (res, s') \<Rightarrow>
          (case serve io env s' cs of
             None \<Rightarrow> None
           | Some (rs, s'') \<Rightarrow> Some (res # rs, s'')))"

definition assigned :: "(error option \<times> uint64 option) list \<Rightarrow> uint64 list" where
  "assigned rs = List.map_filter snd rs"

section \<open>The framing loops on a transport that keeps its contract\<close>

lemma store_length: "index + length chunk \<le> length data \<Longrightarrow> length (store data index chunk) = length data"
  by (simp add: store_def)

lemma store_take: "index \<le> length data \<Longrightarrow> take index (store data index chunk) = take index data"
  by (simp add: store_def)

lemma store_drop: "index \<le> length data \<Longrightarrow> take (length chunk) (drop index (store data index chunk)) = chunk"
  by (simp add: store_def)

lemma read_loop_contract:
  fixes io :: "('r, 'w) stream_io"
  assumes "read_loop io r data index = Some y"
  shows "reader_law io unread \<longrightarrow> index \<le> length data \<longrightarrow> read_post unread r data index y"
proof (rule read_loop.raw_induct [where P = "\<lambda>io r data index y.
          reader_law io unread \<longrightarrow> index \<le> length data \<longrightarrow> read_post unread r data index y", OF _ assms])
  fix f :: "('r, 'w) stream_io \<Rightarrow> 'r \<Rightarrow> byte list \<Rightarrow> nat \<Rightarrow> (io_error option \<times> byte list \<times> 'r) option"
  fix io r data index y
  assume IH: "\<And>io r data index y. f io r data index = Some y \<Longrightarrow>
          reader_law io unread \<longrightarrow> index \<le> length data \<longrightarrow> read_post unread r data index y"
  assume body: "(if index < length data
      then case Read io r (length data - index) of
           (bs, err, r') \<Rightarrow>
             let chunk = take (length data - index) bs; n = length chunk;
                 data' = store data index chunk
             in if err \<noteq> None \<and> \<not> is_net_Error err
                then Some (err, data', r')
                else f io r' data' (index + n)
      else Some (None, data, r)) = Some y"
  show "reader_law io unread \<longrightarrow> index \<le> length data \<longrightarrow> read_post unread r data index y"
  proof (intro impI)
    assume law: "reader_law io unread" and le: "index \<le> length data"
    show "read_post unread r data index y"
    proof (cases "index < length data")
      case False
      with body le have "y = (None, data, r)" and "index = length data" by auto
      then show ?thesis by (simp add: read_post_def)
    next
      case True
      obtain bs err r1 where rd: "Read io r (length data - index) = (bs, err, r1)"
        by (cases "Read io r (length data - index)") auto
      define chunk where "chunk = take (length data - index) bs"
      define data1 where "data1 = store data index chunk"
      have n: "index + length chunk \<le> length data" using True by (simp add: chunk_def)
      have len1: "length data1 = length data" unfolding data1_def using n by (rule store_length)
      have tk1: "take index data1 = take index data" unfolding data1_def using le by (rule store_take)
      have dr1: "take (length chunk) (drop index data1) = chunk" unfolding data1_def using le by (rule store_drop)
      have un: "unread r = chunk @ unread r1"
        using law rd unfolding reader_law_def chunk_def
        by (metis (mono_tags, lifting) case_prod_conv)
      show ?thesis
      proof (cases "err \<noteq> None \<and> \<not> is_net_Error err")
        case stop: True
        with body True rd have y: "y = (err, data1, r1)"
          by (simp add: Let_def chunk_def data1_def)
        show ?thesis
          unfolding y read_post_def using len1 tk1 dr1 un n stop
          by (auto intro!: exI [of _ "length chunk"])
      next
        case go: False
        with body True rd have rec: "f io r1 data1 (index + length chunk) = Some y"
          by (auto simp add: Let_def chunk_def data1_def split: if_splits)
        obtain err' data' r' where y: "y = (err', data', r')" by (cases y) auto
        from IH [OF rec] law n len1 have post: "read_post unread r1 data1 (index + length chunk) y"
          by simp
        then obtain k where
          l: "length data' = length data1" and
          t: "take (index + length chunk) data' = take (index + length chunk) data1" and
          ne: "\<not> is_net_Error err'" and
          k: "index + length chunk + k \<le> length data1" and
          u: "unread r1 = take k (drop (index + length chunk) data') @ unread r'" and
          f: "err' = None \<longrightarrow> index + length chunk + k = length data1"
          unfolding read_post_def y by auto
        have t0: "take index data' = take index data"
        proof -
          have "take index data' = take index (take (index + length chunk) data')" by simp
          also have "\<dots> = take index (take (index + length chunk) data1)" by (simp only: t)
          also have "\<dots> = take index data" using tk1 by simp
          finally show ?thesis .
        qed
        have c: "take (length chunk) (drop index data') = chunk"
        proof -
          have "take (length chunk) (drop index data') = drop index (take (index + length chunk) data')"
            by (simp add: drop_take)
          also have "\<dots> = drop index (take (index + length chunk) data1)" by (simp only: t)
          also have "\<dots> = take (length chunk) (drop index data1)" by (simp add: drop_take)
          finally show ?thesis using dr1 by simp
        qed
        have "take (length chunk + k) (drop index data') =
              take (length chunk) (drop index data') @ take k (drop (length chunk) (drop index data'))"
          by (simp add: take_add)
        then have j: "take (length chunk + k) (drop index data') =
              chunk @ take k (drop (index + length chunk) data')"
          using c by (simp add: add.commute)
        show ?thesis
          unfolding y read_post_def using l len1 t0 ne k u f un j
          by (auto intro!: exI [of _ "length chunk + k"] simp: add.assoc)
      qed
    qed
  qed
qed

lemma read_contract:
  assumes "reader_law io unread" and "read io r data = Some (err, data', r')"
  shows "length data' = length data \<and> \<not> is_net_Error err \<and>
         (\<exists>k \<le> length data. unread r = take k data' @ unread r' \<and> (err = None \<longrightarrow> k = length data))"
  using read_loop_contract [of io r data 0 "(err, data', r')" unread] assms
  by (auto simp add: read_def read_post_def)

lemma write_loop_contract:
  fixes io :: "('r, 'w) stream_io"
  assumes "write_loop io w data index = Some y"
  shows "writer_law io accepted \<longrightarrow> index \<le> length data \<longrightarrow> write_post accepted w data index y"
proof (rule write_loop.raw_induct [where P = "\<lambda>io w data index y.
          writer_law io accepted \<longrightarrow> index \<le> length data \<longrightarrow> write_post accepted w data index y", OF _ assms])
  fix f :: "('r, 'w) stream_io \<Rightarrow> 'w \<Rightarrow> byte list \<Rightarrow> nat \<Rightarrow> (io_error option \<times> 'w) option"
  fix io w data index y
  assume IH: "\<And>io w data index y. f io w data index = Some y \<Longrightarrow>
          writer_law io accepted \<longrightarrow> index \<le> length data \<longrightarrow> write_post accepted w data index y"
  assume body: "(if index < length data
      then case Write io w (drop index data) of
           (n, err, w') \<Rightarrow>
             if \<not> is_net_Error err then Some (err, w')
             else f io w' data (index + n)
      else Some (None, w)) = Some y"
  show "writer_law io accepted \<longrightarrow> index \<le> length data \<longrightarrow> write_post accepted w data index y"
  proof (intro impI)
    assume law: "writer_law io accepted" and le: "index \<le> length data"
    show "write_post accepted w data index y"
    proof (cases "index < length data")
      case False
      with body le have "y = (None, w)" and "index = length data" by auto
      then show ?thesis by (simp add: write_post_def)
    next
      case True
      obtain n err w1 where wr: "Write io w (drop index data) = (n, err, w1)"
        by (cases "Write io w (drop index data)") auto
      from law wr have n: "n \<le> length (drop index data)"
        and acc: "accepted w1 = accepted w @ take n (drop index data)"
        and full: "err = None \<longrightarrow> n = length (drop index data)"
        unfolding writer_law_def by (metis (mono_tags, lifting) case_prod_conv)+
      from n have n': "index + n \<le> length data" using True by simp
      show ?thesis
      proof (cases "is_net_Error err")
        case stop: False
        with body True wr have y: "y = (err, w1)" by simp
        show ?thesis
          unfolding y write_post_def using stop n' acc full
          by (auto intro!: exI [of _ n])
      next
        case go: True
        with body True wr have rec: "f io w1 data (index + n) = Some y" by simp
        obtain err' w' where y: "y = (err', w')" by (cases y) auto
        from IH [OF rec] law n' have "write_post accepted w1 data (index + n) y" by simp
        then obtain k where
          ne: "\<not> is_net_Error err'" and
          k: "index + n + k \<le> length data" and
          a: "accepted w' = accepted w1 @ take k (drop (index + n) data)" and
          f: "err' = None \<longrightarrow> index + n + k = length data"
          unfolding write_post_def y by auto
        have "drop n (drop index data) = drop (index + n) data"
          by (simp add: add.commute)
        then have "take (n + k) (drop index data) = take n (drop index data) @ take k (drop (index + n) data)"
          by (simp only: take_add)
        with a acc have "accepted w' = accepted w @ take (n + k) (drop index data)" by simp
        with ne k f show ?thesis
          unfolding y write_post_def by (auto intro!: exI [of _ "n + k"] simp: add.assoc)
      qed
    qed
  qed
qed

lemma write_contract:
  assumes "writer_law io accepted" and "write_bytes io w data = Some (err, w')"
  shows "\<not> is_net_Error err \<and>
         (\<exists>k \<le> length data. accepted w' = accepted w @ take k data \<and> (err = None \<longrightarrow> k = length data))"
  using write_loop_contract [of io w data 0 "(err, w')" accepted] assms
  by (auto simp add: write_bytes_def write_post_def)

lemma read_consumed:
  assumes "reader_law io unread" and "read io r (replicate n 0) = Some (err, data, r')"
  shows "\<exists>bs. length bs \<le> n \<and> unread r = bs @ unread r' \<and> (err = None \<longrightarrow> bs = data \<and> length data = n)"
proof -
  from read_contract [OF assms] obtain k where
    l: "length data = n" and k: "k \<le> n" and u: "unread r = take k data @ unread r'"
    and f: "err = None \<longrightarrow> k = n"
    by auto
  show ?thesis
    using l k u f by (intro exI [of _ "take k data"]) auto
qed

lemma sendFrame_law:
  assumes "writer_law io accepted" and "sendFrame io w data = Some (None, w')"
  shows "accepted w' = accepted w @ PutUvarint (of_nat (length data)) @ data"
proof (cases "data = []")
  case True
  with assms(2) have "write_bytes io w (PutUvarint 0) = Some (None, w')"
    by (simp add: sendFrame_def)
  from write_contract [OF assms(1) this] True show ?thesis by simp
next
  case False
  with assms(2) obtain w1 where
    a: "write_bytes io w (PutUvarint (of_nat (length data))) = Some (None, w1)"
    and b: "write_bytes io w1 data = Some (None, w')"
    by (auto simp add: sendFrame_def split: option.splits if_splits)
  from write_contract [OF assms(1) a] write_contract [OF assms(1) b]
  show ?thesis by simp
qed

lemma writer_law_script: "writer_law script_io snd"
  by (auto simp add: writer_law_def script_io_def script_Write_def min_def
           split: list.splits prod.splits)

lemma reader_law_script: "reader_law script_io snd"
  by (auto simp add: reader_law_def script_io_def script_Read_def buf_Read_def
           split: list.splits prod.splits)

lemma write_loop_stuck:
  assumes "write_loop io w data index = Some y"
  shows "io = stuck_io \<longrightarrow> index < length data \<longrightarrow> False"
proof (rule write_loop.raw_induct [where P = "\<lambda>io w data index y.
          io = stuck_io \<longrightarrow> index < length data \<longrightarrow> False", OF _ assms])
  fix f :: "(unit, unit) stream_io \<Rightarrow> unit \<Rightarrow> byte list \<Rightarrow> nat \<Rightarrow> (io_error option \<times> unit) option"
  fix io w data index y
  assume IH: "\<And>io w data index y. f io w data index = Some y \<Longrightarrow>
          io = stuck_io \<longrightarrow> index < length data \<longrightarrow> False"
  assume body: "(if index < length data
      then case Write io w (drop index data) of
           (n, err, w') \<Rightarrow>
             if \<not> is_net_Error err then Some (err, w')
             else f io w' data (index + n)
      else Some (None, w)) = Some y"
  show "io = stuck_io \<longrightarrow> index < length data \<longrightarrow> False"
  proof (intro impI)
    assume io: "io = stuck_io" and lt: "index < length data"
    with body have "f io w data (index + 0) = Some y"
      by (simp add: stuck_io_def)
    from IH [OF this] io lt show False by simp
  qed
qed

lemma write_stuck: "write_bytes stuck_io () [1, 2, 3] = None"
proof (cases "write_bytes stuck_io () [1, 2, 3]")
  case None
  then show ?thesis .
next
  case (Some y)
  then have "write_loop stuck_io () [1, 2, 3] 0 = Some y" by (simp add: write_bytes_def)
  from write_loop_stuck [OF this] show ?thesis by simp
qed

section \<open>Uvarints and the framing helpers on the in-memory stream\<close>

lemma write_buffer: "write_bytes buffer_io w data = Some (None, w @ data)"
  by (simp add: write_bytes_def write_loop.simps [of _ _ _ 0] buffer_io_def buf_Write_def)

lemma sendFrame_buffer:
  "sendFrame buffer_io w data = Some (None, w @ PutUvarint (of_nat (length data)) @ data)"
  by (simp add: sendFrame_def write_buffer)

lemma read_buffer:
  assumes "n \<le> length s"
  shows "read buffer_io s (replicate n 0) = Some (None, take n s, drop n s)"
proof (cases "n = 0")
  case True
  then show ?thesis by (simp add: read_def read_loop.simps [of _ _ _ 0])
next
  case False
  with assms have "s \<noteq> []" by auto
  with assms False show ?thesis
    by (simp add: read_def read_loop.simps [of _ _ _ 0] read_loop.simps [of _ _ _ n]
        buffer_io_def buf_Read_def store_def Let_def)
qed

lemma c7f: "(0x7f :: 'a::len word) = mask 7" by (simp add: mask_eq_exp_minus_1)
lemma c80: "(0x80 :: 'a::len word) = push_bit 7 1" by simp

lemma low7: "ucast ((ucast (y :: 64 word) OR (0x80 :: 8 word)) AND 0x7f) = y AND (0x7f :: 64 word)"
  apply (rule bit_word_eqI)
  apply (simp only: c7f c80 bit_simps)
  apply auto
  done

lemma split7: "(y AND 0x7f) OR push_bit 7 (drop_bit 7 y) = (y :: 64 word)"
proof (rule bit_word_eqI)
  fix n assume n: "n < LENGTH(64)"
  show "bit ((y AND 0x7f) OR push_bit 7 (drop_bit 7 y)) n = bit y n"
  proof (cases "n < 7")
    case True
    then show ?thesis unfolding c7f by (simp add: bit_simps)
  next
    case False
    then have "7 + (n - 7) = n" by simp
    with False n show ?thesis unfolding c7f by (simp add: bit_simps)
  qed
qed

lemma small_take: "(y :: 64 word) < 0x80 \<Longrightarrow> take_bit 7 y = y"
  using less_mask_eq [of y 7] by (simp add: take_bit_eq_mask)

lemma small_cast: 
  assumes "y < 0x80" shows "ucast (ucast (y :: 64 word) :: 8 word) = y"
proof -
  have "ucast (ucast (take_bit 7 y) :: 8 word) = take_bit 7 y"
    by (rule bit_word_eqI) (auto simp add: bit_simps)
  with small_take [OF assms] show ?thesis by simp
qed

lemma hi_byte: "\<not> ((ucast (y :: 64 word) OR (0x80 :: 8 word)) < 0x80)"
  using le_word_or2 [of "0x80 :: 8 word" "ucast y"] by (simp add: or.commute not_less)

lemma small_byte: "(y :: 64 word) < 0x80 \<Longrightarrow> (ucast y :: 8 word) < 0x80"
  by (simp add: word_less_nat_alt unsigned_ucast_eq take_bit_nat_eq_self)

lemma small_byte1: "(y :: 64 word) < 2 \<Longrightarrow> \<not> 1 < (ucast y :: 8 word)"
  by (simp add: word_less_nat_alt unsigned_ucast_eq take_bit_nat_eq_self)

lemma ReadByte_buffer_Cons [simp]: "ReadByte buffer_io (b # s) = (b, None, s)"
  by (simp add: buffer_io_def buf_ReadByte_def)

lemma ReadUvarint_loop_PutUvarint:
  "i \<le> 9 \<Longrightarrow> unat y < 2 ^ (64 - 7 * i) \<Longrightarrow>
   ReadUvarint_loop buffer_io (PutUvarint y @ rest) acc (7 * i) i =
     (acc OR push_bit (7 * i) y, None, rest)"
proof (induction y arbitrary: acc i rule: PutUvarint.induct)
  case (1 x)
  show ?case
  proof (cases "0x80 \<le> x")
    case True
    then have big: "128 \<le> unat x" by (simp add: word_le_nat_alt)
    have "i \<noteq> 9"
    proof
      assume "i = 9"
      with "1.prems"(2) have "unat x < 2" by simp
      with big show False by simp
    qed
    with "1.prems"(1) have i8: "i \<le> 8" by simp
    then have e: "(64::nat) - 7 * i = Suc (Suc (Suc (Suc (Suc (Suc (Suc (64 - 7 * (i + 1))))))))" by simp
    have "unat x < 128 * 2 ^ (64 - 7 * (i + 1))"
      using "1.prems"(2) unfolding e by simp
    then have small: "unat (drop_bit 7 x) < 2 ^ (64 - 7 * (i + 1))"
      by (simp add: drop_bit_eq_div unat_div less_mult_imp_div_less mult.commute)
    have i1: "i + 1 \<le> 9" using i8 by simp
    have s: "7 * i + 7 = 7 * (i + 1)" by simp
    have put: "PutUvarint x = (ucast x OR 0x80) # PutUvarint (drop_bit 7 x)"
      using True by (subst PutUvarint.simps) simp
    have "(acc OR push_bit (7 * i) (x AND 0x7f)) OR push_bit (7 * (i + 1)) (drop_bit 7 x)
          = acc OR push_bit (7 * i) ((x AND 0x7f) OR push_bit 7 (drop_bit 7 x))"
      by (simp add: push_bit_or push_bit_push_bit or.assoc add.commute del: push_bit_and)
    then have join: "(acc OR push_bit (7 * i) (x AND 0x7f)) OR push_bit (7 * (i + 1)) (drop_bit 7 x)
          = acc OR push_bit (7 * i) x"
      by (simp only: split7)
    have "ReadUvarint_loop buffer_io (PutUvarint x @ rest) acc (7 * i) i
          = ReadUvarint_loop buffer_io (PutUvarint (drop_bit 7 x) @ rest)
              (acc OR push_bit (7 * i) (x AND 0x7f)) (7 * (i + 1)) (i + 1)"
      using i8 by (subst ReadUvarint_loop.simps) (simp add: put hi_byte low7 MaxVarintLen64_def s del: push_bit_and)
    also have "\<dots> = ((acc OR push_bit (7 * i) (x AND 0x7f)) OR push_bit (7 * (i + 1)) (drop_bit 7 x), None, rest)"
      by (rule "1.IH" [OF True i1 small])
    finally show ?thesis by (simp only: join)
  next
    case False
    then have lt: "x < 0x80" by simp
    have put: "PutUvarint x = [ucast x]"
      using False by (subst PutUvarint.simps) simp
    have nine: "i = 9 \<Longrightarrow> \<not> 1 < (ucast x :: byte)"
    proof -
      assume "i = 9"
      with "1.prems"(2) have "unat x < 2" by simp
      then have "x < 2" by (simp add: word_less_nat_alt)
      then show ?thesis by (rule small_byte1)
    qed
    show ?thesis
      using "1.prems"(1) nine
      by (subst ReadUvarint_loop.simps)
         (auto simp add: put small_byte [OF lt] small_cast [OF lt] MaxVarintLen64_def)
  qed
qed

lemma ReadUvarint_PutUvarint:
  "ReadUvarint buffer_io (PutUvarint y @ rest) = (y, None, rest)"
proof -
  have "unat y < 2 ^ 64" using unsigned_less [of y] by simp
  then show ?thesis
    using ReadUvarint_loop_PutUvarint [of 0 y rest 0] by (simp add: ReadUvarint_def)
qed

lemma recvFrame_buffer:
  assumes "length b < 2 ^ 63"
  shows "recvFrame buffer_io (PutUvarint (of_nat (length b)) @ b @ rest) = Some (Inr b, rest)"
proof -
  have u: "unat (of_nat (length b) :: uint64) = length b"
    using assms by (simp add: unat_of_nat)
  show ?thesis
  proof (cases "b = []")
    case True
    then show ?thesis by (simp add: recvFrame_def ReadUvarint_PutUvarint)
  next
    case False
    then have "(of_nat (length b) :: uint64) \<noteq> 0"
      using u by (metis length_0_conv unat_0)
    then show ?thesis
      using assms by (simp add: recvFrame_def ReadUvarint_PutUvarint u read_buffer)
  qed
qed

lemma PutUvarint_0: "PutUvarint 0 = [0]"
  by (subst PutUvarint.simps) simp

lemma PutUvarint_small:
  assumes "n < 0x80" shows "PutUvarint n = [ucast n]"
proof -
  from assms have "\<not> 0x80 \<le> n" by (simp add: not_le)
  then show ?thesis by (subst PutUvarint.simps) simp
qed

lemma PutUvarint_length:
  "0 < k \<Longrightarrow> unat x < 2 ^ (7 * k) \<Longrightarrow> length (PutUvarint x) \<le> k"
proof (induction x arbitrary: k rule: PutUvarint.induct)
  case (1 x)
  show ?case
  proof (cases "0x80 \<le> x")
    case True
    then have big: "128 \<le> unat x" by (simp add: word_le_nat_alt)
    have "k \<noteq> 1"
    proof
      assume "k = 1"
      with "1.prems"(2) big show False by simp
    qed
    with "1.prems"(1) obtain j where k: "k = Suc j" and j: "0 < j" by (cases k) auto
    have "unat x < 128 * 2 ^ (7 * j)" using "1.prems"(2) by (simp add: k power_add)
    then have "unat (drop_bit 7 x) < 2 ^ (7 * j)"
      by (simp add: drop_bit_eq_div unat_div less_mult_imp_div_less mult.commute)
    from "1.IH" [OF True j this] have "length (PutUvarint (drop_bit 7 x)) \<le> j" .
    then show ?thesis using True k by (subst PutUvarint.simps) simp
  next
    case False
    then show ?thesis using "1.prems"(1) by (subst PutUvarint.simps) simp
  qed
qed

lemma PutUvarint_fits: "length (PutUvarint x) \<le> MaxVarintLen64"
proof -
  have "unat x < 2 ^ 64" using unsigned_less [of x] by simp
  also have "(2::nat) ^ 64 \<le> 2 ^ (7 * 10)" by simp
  finally show ?thesis
    using PutUvarint_length [of 10 x] by (simp add: MaxVarintLen64_def)
qed

lemma Flush_buffer: "Flush buffer_io w = w"
  by (simp add: buffer_io_def)

lemma reader_law_buffer: "reader_law buffer_io (\<lambda>s. s)"
  by (simp add: reader_law_def buffer_io_def buf_Read_def)

lemma writer_law_buffer: "writer_law buffer_io (\<lambda>s. s)"
  by (simp add: writer_law_def buffer_io_def buf_Write_def)

section \<open>Values used in the examples\<close>

lemma crc123: "ChecksumIEEE [1, 2, 3] = 0x55BC801D" by code_simp

lemma recv_response_frame:
  "recvFrame buffer_io ([22, 7,0,0,0,0,0,0,0, 0,0,0,0, 0,0,0,0, 0,0, 0,0,0,0] @ rest)
     = Some (Inr [7,0,0,0,0,0,0,0, 0,0,0,0, 0,0,0,0, 0,0, 0,0,0,0], rest)"
  using recvFrame_buffer [of "[7,0,0,0,0,0,0,0, 0,0,0,0, 0,0,0,0, 0,0, 0,0,0,0]" rest]
  by (simp add: PutUvarint_small)

lemma unmarshal_response_frame:
  "layout_ResponseHeader_Unmarshal h [7,0,0,0,0,0,0,0, 0,0,0,0, 0,0,0,0, 0,0, 0,0,0,0]
     = (None, \<lparr> ResponseHeader.CompressType = 0, ResponseHeader.Error = [],
                ResponseHeader.ID = 7, ResponseLen = 0, ResponseHeader.Checksum = 0 \<rparr>)"
  by (simp add: layout_ResponseHeader_Unmarshal_def le_word_def bytes_str_def Let_def)

lemma recv_request_frame:
  "recvFrame buffer_io
     ([23, 5,0,0,0,0,0,0,0, 1,0,0,0, 77, 0,0,0,0, 0,0, 0,0,0,0] @ rest)
   = Some (Inr [5,0,0,0,0,0,0,0, 1,0,0,0, 77, 0,0,0,0, 0,0, 0,0,0,0], rest)"
  using recvFrame_buffer [of "[5,0,0,0,0,0,0,0, 1,0,0,0, 77, 0,0,0,0, 0,0, 0,0,0,0]" rest]
  by (simp add: PutUvarint_small)

lemma unmarshal_request_frame:
  "layout_RequestHeader_Unmarshal h [5,0,0,0,0,0,0,0, 1,0,0,0, 77, 0,0,0,0, 0,0, 0,0,0,0]
   = (None, \<lparr> RequestHeader.CompressType = 0, Method = ''M'', RequestHeader.ID = 5,
              RequestLen = 0, RequestHeader.Checksum = 0 \<rparr>)"
  by (simp add: layout_RequestHeader_Unmarshal_def le_word_def bytes_str_def Let_def char_of_def
        bit_Suc_0_iff)

lemma recv_empty: "recvFrame buffer_io [] = Some (Inl (IOError EOF), [])"
  by (simp add: recvFrame_def ReadUvarint_def ReadUvarint_loop.simps [of _ _ _ _ 0]
        buffer_io_def buf_ReadByte_def MaxVarintLen64_def)

lemma read_three: "read buffer_io [1, 2, 3, 9] (replicate 3 0) = Some (None, [1, 2, 3], [9])"
  using read_buffer [of 3 "[1, 2, 3, 9]"] by simp

lemma read_short: "read buffer_io [1] (replicate 3 0) = Some (Some EOF, [1, 0, 0], [])"
  by (simp add: read_def read_loop.simps buffer_io_def buf_Read_def store_def Let_def
        numeral_3_eq_3 numeral_2_eq_2)

section \<open>Runs of calls on the server codec\<close>

lemma serve_call_seq:
  assumes "serve_call io env s c = Some ((err, q), s')"
  shows "case q of None \<Rightarrow> seq s' = seq s | Some v \<Rightarrow> v = seq s + 1 \<and> seq s' = seq s + 1"
proof (cases c)
  case (ReadRequestHeader req)
  with assms show ?thesis
    by (auto simp add: serve_call_def serverCodec_ReadRequestHeader_def Let_def
             split: option.splits sum.splits prod.splits if_splits)
next
  case (ReadRequestBody param)
  with assms show ?thesis
    by (auto simp add: serve_call_def serverCodec_ReadRequestBody_def Let_def
             split: option.splits sum.splits prod.splits if_splits)
next
  case (WriteResponse resp param)
  with assms show ?thesis
    by (auto simp add: serve_call_def serverCodec_WriteResponse_def Let_def
             split: option.splits sum.splits prod.splits if_splits)
qed

lemma assigned_Cons:
  "assigned ((err, q) # rs) = (case q of None \<Rightarrow> assigned rs | Some v \<Rightarrow> v # assigned rs)"
  by (simp add: assigned_def split: option.splits)

lemma upt_shift: "[1..<Suc (Suc n)] = 1 # map Suc [1..<Suc n]"
proof -
  have "[1..<Suc (Suc n)] = 1 # [Suc 1..<Suc (Suc n)]"
    by (rule upt_conv_Cons) simp
  also have "[Suc 1..<Suc (Suc n)] = map Suc [1..<Suc n]"
    by (simp only: map_Suc_upt)
  finally show ?thesis .
qed

lemma serve_seqs:
  "serve io env s cs = Some (rs, s') \<Longrightarrow>
     assigned rs = map (\<lambda>k. seq s + of_nat k) [1..<Suc (length (assigned rs))]
     \<and> seq s' = seq s + of_nat (length (assigned rs))"
proof (induction cs arbitrary: s rs s')
  case Nil
  then show ?case by (simp add: assigned_def)
next
  case (Cons c cs)
  from Cons.prems obtain err q s1 rs1 where
    st: "serve_call io env s c = Some ((err, q), s1)"
    and rest: "serve io env s1 cs = Some (rs1, s')"
    and rs: "rs = (err, q) # rs1"
    by (auto split: option.splits prod.splits)
  from Cons.IH [OF rest] have
    ih1: "assigned rs1 = map (\<lambda>k. seq s1 + of_nat k) [1..<Suc (length (assigned rs1))]"
    and ih2: "seq s' = seq s1 + of_nat (length (assigned rs1))" by auto
  show ?case
  proof (cases q)
    case None
    with serve_call_seq [OF st] have "seq s1 = seq s" by simp
    with ih1 ih2 None rs show ?thesis by (simp add: assigned_Cons)
  next
    case (Some v)
    with serve_call_seq [OF st] have v: "v = seq s + 1" and s1: "seq s1 = seq s + 1" by auto
    have a: "assigned rs = v # assigned rs1" using rs Some by (simp add: assigned_Cons)
    have "map (\<lambda>k. seq s + of_nat k) [1..<Suc (Suc (length (assigned rs1)))]
          = (seq s + 1) # map (\<lambda>k. seq s + 1 + of_nat k) [1..<Suc (length (assigned rs1))]"
      by (simp only: upt_shift) (simp add: comp_def add.assoc)
    with ih1 ih2 a v s1 show ?thesis by (simp add: add.assoc)
  qed
qed

lemma unat_upt:
  assumes "n < 2 ^ 64"
  shows "map (unat \<circ> (of_nat :: nat \<Rightarrow> uint64)) [1..<Suc n] = [1..<Suc n]"
proof -
  have "(unat \<circ> (of_nat :: nat \<Rightarrow> uint64)) k = k" if "k \<in> set [1..<Suc n]" for k
  proof -
    from that have "k \<le> n" by auto
    with assms have "k < 2 ^ 64" by simp
    then show ?thesis by (simp add: unat_of_nat)
  qed
  then have "map (unat \<circ> (of_nat :: nat \<Rightarrow> uint64)) [1..<Suc n] = map (\<lambda>k. k) [1..<Suc n]"
    by (intro map_cong) auto
  then show ?thesis by simp
qed

lemma serve_call_assigns:
  assumes "serve_call io env s c = Some ((err, q), s')"
  shows "q \<noteq> None \<longleftrightarrow> (case c of ReadRequestHeader req \<Rightarrow> err = None | _ \<Rightarrow> False)"
  using assms by (auto simp add: serve_call_def split: call.splits option.splits prod.splits if_splits)

lemma serve_count:
  "serve io env s cs = Some (rs, s') \<Longrightarrow>
     length rs = length cs
     \<and> length (assigned rs)
         = length (filter (\<lambda>(c, err, q). case c of ReadRequestHeader req \<Rightarrow> err = None | _ \<Rightarrow> False)
                     (zip cs rs))"
proof (induction cs arbitrary: s rs s')
  case Nil
  then show ?case by (simp add: assigned_def)
next
  case (Cons c cs)
  from Cons.prems obtain err q s1 rs1 where
    st: "serve_call io env s c = Some ((err, q), s1)"
    and rest: "serve io env s1 cs = Some (rs1, s')"
    and rs: "rs = (err, q) # rs1"
    by (auto split: option.splits prod.splits)
  from Cons.IH [OF rest] serve_call_assigns [OF st] rs show ?case
    by (cases q) (auto simp add: assigned_Cons)
qed

text \<open>
  The same on any transport that keeps the reader contracts: when \<open>ReadUvarint\<close> and
  \<open>recvFrame\<close> return without an error on a stream that starts with a frame, they have
  returned what the frame holds and left the stream right after it.
\<close>

lemma byte_reader_lawD:
  "byte_reader_law io unread \<Longrightarrow> ReadByte io r = (b, None, r') \<Longrightarrow> unread r = b # unread r'"
  unfolding byte_reader_law_def by (metis (mono_tags, lifting) case_prod_conv)

lemma ReadUvarint_loop_stream:
  assumes law: "byte_reader_law io unread"
  shows "i \<le> 9 \<Longrightarrow> unat y < 2 ^ (64 - 7 * i) \<Longrightarrow> unread r = PutUvarint y @ rest \<Longrightarrow>
         ReadUvarint_loop io r acc (7 * i) i = (x, None, r') \<Longrightarrow>
         x = acc OR push_bit (7 * i) y \<and> unread r' = rest"
proof (induction y arbitrary: acc i r rule: PutUvarint.induct)
  case (1 y)
  obtain b err r1 where rb: "ReadByte io r = (b, err, r1)"
    by (cases "ReadByte io r") auto
  have i10: "i < MaxVarintLen64" using "1.prems"(1) by (simp add: MaxVarintLen64_def)
  have err: "err = None"
  proof (cases err)
    case None then show ?thesis .
  next
    case (Some e)
    with "1.prems"(4) rb i10 show ?thesis
      by (subst (asm) ReadUvarint_loop.simps) simp
  qed
  have ur: "unread r = b # unread r1"
    using byte_reader_lawD [OF law] rb err by blast
  show ?case
  proof (cases "0x80 \<le> y")
    case True
    then have big: "128 \<le> unat y" by (simp add: word_le_nat_alt)
    have "i \<noteq> 9"
    proof
      assume "i = 9"
      with "1.prems"(2) have "unat y < 2" by simp
      with big show False by simp
    qed
    with "1.prems"(1) have i8: "i \<le> 8" by simp
    then have e: "(64::nat) - 7 * i = Suc (Suc (Suc (Suc (Suc (Suc (Suc (64 - 7 * (i + 1))))))))" by simp
    have "unat y < 128 * 2 ^ (64 - 7 * (i + 1))"
      using "1.prems"(2) unfolding e by simp
    then have small: "unat (drop_bit 7 y) < 2 ^ (64 - 7 * (i + 1))"
      by (simp add: drop_bit_eq_div unat_div less_mult_imp_div_less mult.commute)
    have i1: "i + 1 \<le> 9" using i8 by simp
    have s: "7 * i + 7 = 7 * (i + 1)" by simp
    have put: "PutUvarint y = (ucast y OR 0x80) # PutUvarint (drop_bit 7 y)"
      using True by (subst PutUvarint.simps) simp
    from ur "1.prems"(3) put have b: "b = ucast y OR 0x80"
      and u1: "unread r1 = PutUvarint (drop_bit 7 y) @ rest" by simp_all
    have "(acc OR push_bit (7 * i) (y AND 0x7f)) OR push_bit (7 * (i + 1)) (drop_bit 7 y)
          = acc OR push_bit (7 * i) ((y AND 0x7f) OR push_bit 7 (drop_bit 7 y))"
      by (simp add: push_bit_or push_bit_push_bit or.assoc add.commute del: push_bit_and)
    then have join: "(acc OR push_bit (7 * i) (y AND 0x7f)) OR push_bit (7 * (i + 1)) (drop_bit 7 y)
          = acc OR push_bit (7 * i) y"
      by (simp only: split7)
    have "ReadUvarint_loop io r acc (7 * i) i
          = ReadUvarint_loop io r1 (acc OR push_bit (7 * i) (y AND 0x7f)) (7 * (i + 1)) (i + 1)"
      using i10 rb err b
      by (subst ReadUvarint_loop.simps) (simp add: hi_byte low7 s del: push_bit_and)
    with "1.prems"(4) have
      "ReadUvarint_loop io r1 (acc OR push_bit (7 * i) (y AND 0x7f)) (7 * (i + 1)) (i + 1) = (x, None, r')"
      by simp
    from "1.IH" [OF True i1 small u1 this] show ?thesis by (simp only: join)
  next
    case False
    then have lt: "y < 0x80" by simp
    have put: "PutUvarint y = [ucast y]"
      using False by (subst PutUvarint.simps) simp
    from ur "1.prems"(3) put have b: "b = ucast y" and u1: "unread r1 = rest" by simp_all
    have nine: "i = 9 \<Longrightarrow> \<not> 1 < (ucast y :: byte)"
    proof -
      assume "i = 9"
      with "1.prems"(2) have "unat y < 2" by simp
      then have "y < 2" by (simp add: word_less_nat_alt)
      then show ?thesis by (rule small_byte1)
    qed
    have "ReadUvarint_loop io r acc (7 * i) i = (acc OR push_bit (7 * i) y, None, r1)"
      using i10 rb err b nine
      by (subst ReadUvarint_loop.simps)
         (auto simp add: small_byte [OF lt] small_cast [OF lt] MaxVarintLen64_def)
    with "1.prems"(4) u1 show ?thesis by simp
  qed
qed

lemma ReadUvarint_stream:
  assumes "byte_reader_law io unread" and "unread r = PutUvarint y @ rest"
    and "ReadUvarint io r = (x, None, r')"
  shows "x = y \<and> unread r' = rest"
proof -
  have "unat y < 2 ^ 64" using unsigned_less [of y] by simp
  then show ?thesis
    using ReadUvarint_loop_stream [OF assms(1), of 0 y r rest 0 x r'] assms(2,3)
    by (simp add: ReadUvarint_def)
qed

lemma recvFrame_stream:
  assumes rl: "reader_law io unread" and bl: "byte_reader_law io unread"
    and len: "length b < 2 ^ 63"
    and u: "unread r = PutUvarint (of_nat (length b)) @ b @ rest"
    and rf: "recvFrame io r = Some (Inr d, r')"
  shows "d = b \<and> unread r' = rest"
proof -
  have ul: "unat (of_nat (length b) :: uint64) = length b"
    using len by (simp add: unat_of_nat)
  obtain sz err r1 where ru: "ReadUvarint io r = (sz, err, r1)"
    by (cases "ReadUvarint io r") auto
  with rf have err: "err = None"
    by (cases err) (simp_all add: recvFrame_def)
  from ReadUvarint_stream [OF bl u ru [unfolded err]]
  have sz: "sz = of_nat (length b)" and u1: "unread r1 = b @ rest" by simp_all
  show ?thesis
  proof (cases "sz = 0")
    case True
    with sz ul have "b = []" by (metis length_0_conv unat_0)
    with rf ru err True u1 show ?thesis by (simp add: recvFrame_def)
  next
    case False
    with rf ru err sz ul len obtain data where
      rd: "read io r1 (replicate (length b) 0) = Some (None, data, r')" and d: "d = data"
      by (auto simp add: recvFrame_def split: option.splits prod.splits)
    from read_consumed [OF rl rd] u1 d show ?thesis by auto
  qed
qed

lemma byte_reader_law_buffer: "byte_reader_law buffer_io (\<lambda>s. s)"
  by (simp add: byte_reader_law_def buffer_io_def buf_ReadByte_def split: list.splits)

lemma byte_reader_law_script: "byte_reader_law script_io snd"
  by (simp add: byte_reader_law_def script_io_def script_ReadByte_def buf_ReadByte_def
        split: list.splits prod.splits)

section \<open>Frame round-trip\<close>

text \<open>
  Claim C1. For every byte buffer \<open>b\<close> (a Go slice, so shorter than \<open>2^63\<close> bytes), on
  any transport that keeps the \<open>io.Writer\<close>, \<open>io.Reader\<close> and \<open>io.ByteReader\<close>
  contracts, whatever short writes, short reads and retried errors occur: a \<open>sendFrame\<close>
  of \<open>b\<close> that returns nil has put on the wire the length of \<open>b\<close> as a uvarint and then
  \<open>b\<close>, and a \<open>recvFrame\<close> that returns data from a stream that starts with those bytes
  (whatever follows them) has returned exactly \<open>b\<close> and left what follows unread. On
  the in-memory stream both calls do return: \<open>sendFrame\<close> leaves those bytes, the
  uvarint being of at most ten bytes, and \<open>recvFrame\<close> returns \<open>b\<close>. For the empty
  buffer the wire holds the single byte 0, the uvarint of 0, and the buffer read back
  is empty.
\<close>

theorem frame_roundtrip:
  assumes "writer_law io accepted" and "reader_law io unread" and "byte_reader_law io unread"
    and "length b < 2 ^ 63"
  shows "(sendFrame io w b = Some (None, w') \<longrightarrow>
            accepted w' = accepted w @ PutUvarint (of_nat (length b)) @ b)
       \<and> (unread r = (PutUvarint (of_nat (length b)) @ b) @ rest
            \<and> recvFrame io r = Some (Inr d, r') \<longrightarrow> d = b \<and> unread r' = rest)
       \<and> sendFrame buffer_io [] b = Some (None, PutUvarint (of_nat (length b)) @ b)
       \<and> recvFrame buffer_io ((PutUvarint (of_nat (length b)) @ b) @ rest) = Some (Inr b, rest)
       \<and> length (PutUvarint (of_nat (length b))) \<le> MaxVarintLen64
       \<and> sendFrame buffer_io [] [] = Some (None, [0])
       \<and> recvFrame buffer_io ([0] @ rest) = Some (Inr [], rest)"
proof -
  have s: "accepted w' = accepted w @ PutUvarint (of_nat (length b)) @ b"
    if "sendFrame io w b = Some (None, w')"
    using sendFrame_law [OF assms(1) that] .
  have r: "d = b \<and> unread r' = rest"
    if "unread r = (PutUvarint (of_nat (length b)) @ b) @ rest \<and> recvFrame io r = Some (Inr d, r')"
    using recvFrame_stream [OF assms(2,3,4), of r rest d r'] that by simp
  have z: "recvFrame buffer_io ([0] @ rest) = Some (Inr [], rest)"
    using recvFrame_buffer [of "[]" rest] by (simp add: PutUvarint_0)
  have m: "sendFrame buffer_io [] b = Some (None, PutUvarint (of_nat (length b)) @ b)
       \<and> recvFrame buffer_io ((PutUvarint (of_nat (length b)) @ b) @ rest) = Some (Inr b, rest)
       \<and> length (PutUvarint (of_nat (length b))) \<le> MaxVarintLen64
       \<and> sendFrame buffer_io [] [] = Some (None, [0])"
    using recvFrame_buffer [OF assms(4), of rest]
    by (simp add: sendFrame_buffer PutUvarint_0 PutUvarint_fits)
  from s r z m show ?thesis by blast
qed

theorem frame_roundtrip_witness:
  "writer_law script_io snd \<and> reader_law script_io snd \<and> byte_reader_law script_io snd
   \<and> length [1, 2, 3 :: byte] < 2 ^ 63
   \<and> sendFrame script_io ([(0, NetError True), (2, NetError True)], []) [1, 2, 3]
       = Some (None, ([], [3, 1, 2, 3]))
   \<and> recvFrame script_io ([(2, None), (0, Some (NetError True))], [3, 1, 2, 3] @ [9, 9])
       = Some (Inr [1, 2, 3], ([], [9, 9]))
   \<and> sendFrame buffer_io [] [1, 2, 3] = Some (None, [3, 1, 2, 3])
   \<and> recvFrame buffer_io ([3, 1, 2, 3] @ [9, 9]) = Some (Inr [1, 2, 3], [9, 9])"
proof -
  have h: "length [1, 2, 3 :: byte] < 2 ^ 63" by simp
  note t = frame_roundtrip [OF writer_law_script reader_law_script byte_reader_law_script h]
  have p: "PutUvarint 3 = [3]"
    by (simp add: PutUvarint_small)
  have w: "sendFrame script_io ([(0, NetError True), (2, NetError True)], []) [1, 2, 3]
       = Some (None, ([], [3, 1, 2, 3]))"
    by (simp add: sendFrame_def p write_bytes_def write_loop.simps script_io_def script_Write_def)
  obtain d r' where
    r: "recvFrame script_io ([(2, None), (0, Some (NetError True))], [3, 1, 2, 3] @ [9, 9])
       = Some (Inr d, r')" and e: "r' = ([], snd r')"
    by (simp add: recvFrame_def ReadUvarint_def ReadUvarint_loop.simps MaxVarintLen64_def
          read_def read_loop.simps script_io_def script_Read_def script_ReadByte_def
          buf_Read_def buf_ReadByte_def store_def Let_def)
  have u: "snd (([(2, None), (0, Some (NetError True))], [3, 1, 2, 3] @ [9, 9]) :: script_reader)
      = (PutUvarint (of_nat (length [1, 2, 3 :: byte])) @ [1, 2, 3]) @ [9, 9]"
    by (simp add: p)
  from t [THEN conjunct2, THEN conjunct1, THEN mp, OF conjI, OF u r]
  have "d = [1, 2, 3] \<and> snd r' = [9, 9]" .
  with r e have r2: "recvFrame script_io ([(2, None), (0, Some (NetError True))], [3, 1, 2, 3] @ [9, 9])
       = Some (Inr [1, 2, 3], ([], [9, 9]))" by simp
  from t [of _ _ _ "[9, 9]"] p have b: "sendFrame buffer_io [] [1, 2, 3] = Some (None, [3, 1, 2, 3])
   \<and> recvFrame buffer_io ([3, 1, 2, 3] @ [9, 9]) = Some (Inr [1, 2, 3], [9, 9])"
    by simp
  from writer_law_script reader_law_script byte_reader_law_script h w r2 b
  show ?thesis by simp
qed

section \<open>The response header the server writes\<close>

text \<open>
  Claim C2, as amended. For every \<open>WriteResponse\<close> that returns nil on a \<open>Seq\<close>
  present in the server's pending map, on a writer that keeps the \<open>io.Writer\<close>
  contract: the registry has a compressor for the compress type remembered for that
  \<open>Seq\<close>; the bytes handed to the writer are the frame of a response header followed by
  the compressed body; in that header the id is the original request's id remembered
  for the \<open>Seq\<close>, the compress type is the remembered one, the error is the response's
  error, the checksum is the CRC-32 (IEEE) of the compressed body, and the response
  length is the byte length of the compressed body converted to \<open>uint32\<close> (so equal to
  it whenever the body is shorter than \<open>2^32\<close> bytes). The compressed body is the
  compressor's \<open>Zip\<close> of the marshalled value; when the response's error is
  non-empty (or the value is nil) the value is not marshalled and the body is \<open>Zip\<close>
  of the empty byte string, which is empty for the identity compressor but need not be
  for another. The pending entry is removed.
\<close>

theorem WriteResponse_header:
  assumes "writer_law io accepted"
    and "serverCodec_WriteResponse io env s resp param = Some (None, s')"
    and "serverCodec.pending s (Response.Seq resp) = Some ctx"
  shows "\<exists>compr body cbody h w2.
           Compressors env (compressType ctx) = Some compr
         \<and> (if Response.Error resp \<noteq> [] \<or> param = None then body = []
             else Marshal env param = Inr body)
         \<and> Zip compr body = Inr cbody
         \<and> h = \<lparr> ResponseHeader.CompressType = compressType ctx,
                 ResponseHeader.Error = Response.Error resp,
                 ResponseHeader.ID = requestId ctx,
                 ResponseLen = of_nat (length cbody),
                 ResponseHeader.Checksum = ChecksumIEEE cbody \<rparr>
         \<and> accepted w2 = accepted (serverCodec.writer s)
               @ PutUvarint (of_nat (length (ResponseHeader_Marshal env h)))
               @ ResponseHeader_Marshal env h @ cbody
         \<and> s' = s\<lparr> serverCodec.pending := (serverCodec.pending s)(Response.Seq resp := None),
                   serverCodec.writer := Flush io w2 \<rparr>
         \<and> (length cbody < 2 ^ 32 \<longrightarrow> unat (ResponseLen h) = length cbody)"
proof -
  from assms(2,3) obtain compr body cbody w1 w2 where
    c: "Compressors env (compressType ctx) = Some compr"
    and b: "(case (if Response.Error resp \<noteq> [] then None else param) of
               None \<Rightarrow> Inr []
             | Some v \<Rightarrow> Marshal env (if Response.Error resp \<noteq> [] then None else param))
            = Inr body"
    and z: "Zip compr body = Inr cbody"
    and f: "sendFrame io (serverCodec.writer s)
              (ResponseHeader_Marshal env
                 \<lparr> ResponseHeader.CompressType = compressType ctx,
                   ResponseHeader.Error = Response.Error resp,
                   ResponseHeader.ID = requestId ctx,
                   ResponseLen = of_nat (length cbody),
                   ResponseHeader.Checksum = ChecksumIEEE cbody \<rparr>) = Some (None, w1)"
    and w: "write_bytes io w1 cbody = Some (None, w2)"
    and s': "s' = s\<lparr> serverCodec.pending := (serverCodec.pending s)(Response.Seq resp := None),
                   serverCodec.writer := Flush io w2 \<rparr>"
    unfolding serverCodec_WriteResponse_def Let_def
    by (simp split: option.splits sum.splits prod.splits)
  define h where "h = \<lparr> ResponseHeader.CompressType = compressType ctx,
                 ResponseHeader.Error = Response.Error resp,
                 ResponseHeader.ID = requestId ctx,
                 ResponseLen = of_nat (length cbody),
                 ResponseHeader.Checksum = ChecksumIEEE cbody \<rparr>"
  note f = f [folded h_def]
  from sendFrame_law [OF assms(1) f] write_contract [OF assms(1) w]
  have acc: "accepted w2 = accepted (serverCodec.writer s)
               @ PutUvarint (of_nat (length (ResponseHeader_Marshal env h)))
               @ ResponseHeader_Marshal env h @ cbody" by simp
  have body: "if Response.Error resp \<noteq> [] \<or> param = None then body = []
             else Marshal env param = Inr body"
    using b by (auto split: option.splits if_splits)
  have len: "length cbody < 2 ^ 32 \<longrightarrow> unat (ResponseLen h) = length cbody"
    by (simp add: h_def unat_of_nat)
  from c body z acc s' len show ?thesis
    unfolding h_def by blast
qed

text \<open>
  The claim as stated fails where it says that the body written is empty: with the
  compressor that puts a marker byte in front, a response with a non-empty error
  still has a one-byte body after its header frame, and the header announces it.
\<close>

theorem WriteResponse_header_counterexample:
  "Response.Error \<lparr> Response.ServiceMethod = ''Arith.Multiply'', Response.Seq = 1,
                    Response.Error = ''boom'' \<rparr> \<noteq> []
   \<and> serverCodec_WriteResponse buffer_io example_env
       \<lparr> serverCodec.reader = [], serverCodec.writer = [], request = RequestHeader_ResetHeader,
         seq = 1, serverCodec.pending = [1 \<mapsto> \<lparr> requestId = 42, compressType = 1 \<rparr>] \<rparr>
       \<lparr> Response.ServiceMethod = ''Arith.Multiply'', Response.Seq = 1, Response.Error = ''boom'' \<rparr>
       (Some [7, 6])
     = Some (None,
       \<lparr> serverCodec.reader = [],
         serverCodec.writer =
           PutUvarint (of_nat (length (layout_ResponseHeader_Marshal
              \<lparr> ResponseHeader.CompressType = 1, ResponseHeader.Error = ''boom'',
                ResponseHeader.ID = 42, ResponseLen = 1,
                ResponseHeader.Checksum = ChecksumIEEE [0x1f] \<rparr>)))
           @ layout_ResponseHeader_Marshal
              \<lparr> ResponseHeader.CompressType = 1, ResponseHeader.Error = ''boom'',
                ResponseHeader.ID = 42, ResponseLen = 1,
                ResponseHeader.Checksum = ChecksumIEEE [0x1f] \<rparr>
           @ [0x1f],
         request = RequestHeader_ResetHeader, seq = 1, serverCodec.pending = Map.empty \<rparr>)
   \<and> [0x1f :: byte] \<noteq> []"
  by (simp add: serverCodec_WriteResponse_def example_env_def marker_compressor_def Let_def
        sendFrame_buffer write_buffer Flush_buffer)

theorem WriteResponse_header_witness:
  "writer_law buffer_io (\<lambda>s. s)
   \<and> serverCodec.pending
       \<lparr> serverCodec.reader = [], serverCodec.writer = [], request = RequestHeader_ResetHeader,
         seq = 1, serverCodec.pending = [1 \<mapsto> \<lparr> requestId = 42, compressType = 0 \<rparr>] \<rparr> 1
       = Some \<lparr> requestId = 42, compressType = 0 \<rparr>
   \<and> serverCodec_WriteResponse buffer_io example_env
       \<lparr> serverCodec.reader = [], serverCodec.writer = [], request = RequestHeader_ResetHeader,
         seq = 1, serverCodec.pending = [1 \<mapsto> \<lparr> requestId = 42, compressType = 0 \<rparr>] \<rparr>
       \<lparr> Response.ServiceMethod = ''Arith.Multiply'', Response.Seq = 1, Response.Error = [] \<rparr>
       (Some [1, 2, 3])
     = Some (None,
       \<lparr> serverCodec.reader = [],
         serverCodec.writer =
           [22] @ [42,0,0,0,0,0,0,0, 0,0,0,0, 3,0,0,0, 0,0, 0x1D,0x80,0xBC,0x55] @ [1, 2, 3],
         request = RequestHeader_ResetHeader, seq = 1, serverCodec.pending = Map.empty \<rparr>)
   \<and> (\<exists>h. ResponseHeader.ID h = 42 \<and> ResponseLen h = 3 \<and> ResponseHeader.Checksum h = ChecksumIEEE [1, 2, 3]
          \<and> ResponseHeader.CompressType h = 0 \<and> unat (ResponseLen h) = length [1, 2, 3 :: byte]
          \<and> [22] @ [42,0,0,0,0,0,0,0, 0,0,0,0, 3,0,0,0, 0,0, 0x1D,0x80,0xBC,0x55] @ [1, 2, 3]
              = PutUvarint (of_nat (length (layout_ResponseHeader_Marshal h)))
                @ layout_ResponseHeader_Marshal h @ [1, 2, 3])"
proof -
  let ?s = "\<lparr> serverCodec.reader = ([] :: byte list), serverCodec.writer = ([] :: byte list),
         request = RequestHeader_ResetHeader,
         seq = 1, serverCodec.pending = [1 \<mapsto> \<lparr> requestId = 42, compressType = 0 \<rparr>] \<rparr>"
  let ?s' = "\<lparr> serverCodec.reader = ([] :: byte list),
         serverCodec.writer =
           [22] @ [42,0,0,0,0,0,0,0, 0,0,0,0, 3,0,0,0, 0,0, 0x1D,0x80,0xBC,0x55] @ [1, 2, 3 :: byte],
         request = RequestHeader_ResetHeader, seq = 1, serverCodec.pending = Map.empty \<rparr>"
  let ?resp = "\<lparr> Response.ServiceMethod = ''Arith.Multiply'', Response.Seq = 1, Response.Error = [] \<rparr>"
  have m: "layout_ResponseHeader_Marshal
     \<lparr> ResponseHeader.CompressType = 0, ResponseHeader.Error = [],
       ResponseHeader.ID = 42, ResponseLen = 3, ResponseHeader.Checksum = 0x55BC801D \<rparr>
   = [42,0,0,0,0,0,0,0, 0,0,0,0, 3,0,0,0, 0,0, 0x1D,0x80,0xBC,0x55]"
    by (simp add: layout_ResponseHeader_Marshal_def le_bytes_def str_bytes_def upt_rec)
  have run: "serverCodec_WriteResponse buffer_io example_env ?s ?resp (Some [1, 2, 3]) = Some (None, ?s')"
    by (simp add: serverCodec_WriteResponse_def example_env_def raw_compressor_def Let_def
        sendFrame_buffer write_buffer Flush_buffer crc123 m PutUvarint_small)
  have p: "serverCodec.pending ?s (Response.Seq ?resp) = Some \<lparr> requestId = 42, compressType = 0 \<rparr>"
    by simp
  from WriteResponse_header [OF writer_law_buffer run p]
  obtain compr body cbody h w2 where
    c: "Compressors example_env (compressType \<lparr> requestId = 42, compressType = 0 \<rparr>) = Some compr"
    and b: "if Response.Error ?resp \<noteq> [] \<or> Some [1, 2, 3 :: byte] = None then body = []
            else Marshal example_env (Some [1, 2, 3]) = Inr body"
    and z: "Zip compr body = Inr cbody"
    and h: "h = \<lparr> ResponseHeader.CompressType = compressType \<lparr> requestId = 42, compressType = 0 \<rparr>,
                 ResponseHeader.Error = Response.Error ?resp,
                 ResponseHeader.ID = requestId \<lparr> requestId = 42, compressType = 0 \<rparr>,
                 ResponseLen = of_nat (length cbody),
                 ResponseHeader.Checksum = ChecksumIEEE cbody \<rparr>"
    and a: "w2 = serverCodec.writer ?s
               @ PutUvarint (of_nat (length (ResponseHeader_Marshal example_env h)))
               @ ResponseHeader_Marshal example_env h @ cbody"
    and s': "?s' = ?s\<lparr> serverCodec.pending := (serverCodec.pending ?s)(Response.Seq ?resp := None),
                   serverCodec.writer := Flush buffer_io w2 \<rparr>"
    and l: "length cbody < 2 ^ 32 \<longrightarrow> unat (ResponseLen h) = length cbody"
    by blast
  from c z b have cb: "cbody = [1, 2, 3]"
    by (auto simp add: example_env_def raw_compressor_def)
  from s' have w2: "w2 = [22] @ [42,0,0,0,0,0,0,0, 0,0,0,0, 3,0,0,0, 0,0, 0x1D,0x80,0xBC,0x55] @ [1, 2, 3]"
    by (simp add: Flush_buffer)
  have "ResponseHeader.ID h = 42 \<and> ResponseLen h = 3 \<and> ResponseHeader.Checksum h = ChecksumIEEE [1, 2, 3]
          \<and> ResponseHeader.CompressType h = 0 \<and> unat (ResponseLen h) = length [1, 2, 3 :: byte]
          \<and> [22] @ [42,0,0,0,0,0,0,0, 0,0,0,0, 3,0,0,0, 0,0, 0x1D,0x80,0xBC,0x55] @ [1, 2, 3]
              = PutUvarint (of_nat (length (layout_ResponseHeader_Marshal h)))
                @ layout_ResponseHeader_Marshal h @ [1, 2, 3]"
    using h cb a w2 l by (simp add: example_env_def)
  then have ex: "\<exists>h. ResponseHeader.ID h = 42 \<and> ResponseLen h = 3 \<and> ResponseHeader.Checksum h = ChecksumIEEE [1, 2, 3]
          \<and> ResponseHeader.CompressType h = 0 \<and> unat (ResponseLen h) = length [1, 2, 3 :: byte]
          \<and> [22] @ [42,0,0,0,0,0,0,0, 0,0,0,0, 3,0,0,0, 0,0, 0x1D,0x80,0xBC,0x55] @ [1, 2, 3]
              = PutUvarint (of_nat (length (layout_ResponseHeader_Marshal h)))
                @ layout_ResponseHeader_Marshal h @ [1, 2, 3]" ..
  from writer_law_buffer p run ex show ?thesis by simp
qed

section \<open>Server sequence numbers\<close>

text \<open>
  Claim C3. On a fresh server codec (the counter starts at 0), across any run of
  calls in which \<open>ReadRequestHeader\<close> returns nil \<open>N\<close> times (with \<open>N < 2^64\<close>, the
  counter being a \<open>uint64\<close>), whatever other calls and failed header reads lie in
  between, the \<open>Seq\<close> values it assigns are, in order, \<open>1, 2, ..., N\<close>: strictly
  increasing and pairwise distinct; the counter ends at \<open>N\<close>, and a call assigns a
  value exactly when it is a \<open>ReadRequestHeader\<close> that returns nil.
\<close>

theorem server_sequence_uniqueness:
  assumes "serve io env (NewServerCodec r w) calls = Some (rs, s')"
    and "length (assigned rs) < 2 ^ 64"
  shows "map unat (assigned rs) = [1..<Suc (length (assigned rs))]
         \<and> assigned rs = map of_nat [1..<Suc (length (assigned rs))]
         \<and> seq s' = of_nat (length (assigned rs))
         \<and> distinct (assigned rs)
         \<and> sorted_wrt (<) (assigned rs)
         \<and> length (assigned rs)
             = length (filter (\<lambda>(c, err, q). case c of ReadRequestHeader req \<Rightarrow> err = None
                                                | _ \<Rightarrow> False) (zip calls rs))"
proof -
  let ?n = "length (assigned rs)"
  from serve_seqs [OF assms(1)]
  have a: "assigned rs = map of_nat [1..<Suc ?n]" and s: "seq s' = of_nat ?n"
    by (simp_all add: NewServerCodec_def)
  have "map unat (assigned rs) = map unat (map (of_nat :: nat \<Rightarrow> uint64) [1..<Suc ?n])"
    using a by simp
  also have "\<dots> = [1..<Suc ?n]" using unat_upt [OF assms(2)] by simp
  finally have u: "map unat (assigned rs) = [1..<Suc ?n]" .
  have "distinct (map unat (assigned rs))" unfolding u by simp
  then have d: "distinct (assigned rs)" by (simp add: distinct_map)
  have "sorted_wrt (<) (map unat (assigned rs))" unfolding u by (rule sorted_wrt_upt)
  then have o: "sorted_wrt (<) (assigned rs)"
    by (simp add: sorted_wrt_map word_less_nat_alt [symmetric])
  from serve_count [OF assms(1)] u a s d o show ?thesis by simp
qed

theorem server_sequence_uniqueness_witness:
  "(\<exists>s'. serve buffer_io example_env
       (NewServerCodec
          ([23, 5,0,0,0,0,0,0,0, 1,0,0,0, 77, 0,0,0,0, 0,0, 0,0,0,0]
           @ [23, 5,0,0,0,0,0,0,0, 1,0,0,0, 77, 0,0,0,0, 0,0, 0,0,0,0]) [])
       [ReadRequestHeader \<lparr> Request.ServiceMethod = [], Request.Seq = 0 \<rparr>,
        ReadRequestBody False,
        ReadRequestHeader \<lparr> Request.ServiceMethod = [], Request.Seq = 0 \<rparr>,
        ReadRequestBody False,
        ReadRequestHeader \<lparr> Request.ServiceMethod = [], Request.Seq = 0 \<rparr>]
     = Some ([(None, Some 1), (None, None), (None, Some 2), (None, None),
              (Some (IOError EOF), None)], s'))
   \<and> length (assigned [(None, Some 1), (None, None), (None, Some 2), (None, None),
              (Some (IOError EOF), None)]) < 2 ^ 64
   \<and> map unat (assigned [(None, Some 1), (None, None), (None, Some 2), (None, None),
              (Some (IOError EOF), None)]) = [1, 2]"
proof -
  let ?rs = "[(None, Some 1), (None, None), (None, Some 2), (None, None),
              (Some (IOError EOF), None)] :: (error option \<times> uint64 option) list"
  have ev: "\<exists>s'. serve buffer_io example_env
       (NewServerCodec
          ([23, 5,0,0,0,0,0,0,0, 1,0,0,0, 77, 0,0,0,0, 0,0, 0,0,0,0]
           @ [23, 5,0,0,0,0,0,0,0, 1,0,0,0, 77, 0,0,0,0, 0,0, 0,0,0,0]) [])
       [ReadRequestHeader \<lparr> Request.ServiceMethod = [], Request.Seq = 0 \<rparr>,
        ReadRequestBody False,
        ReadRequestHeader \<lparr> Request.ServiceMethod = [], Request.Seq = 0 \<rparr>,
        ReadRequestBody False,
        ReadRequestHeader \<lparr> Request.ServiceMethod = [], Request.Seq = 0 \<rparr>]
     = Some (?rs, s')"
    using recv_request_frame [of "[23, 5,0,0,0,0,0,0,0, 1,0,0,0, 77, 0,0,0,0, 0,0, 0,0,0,0]"]
      recv_request_frame [of "[]"]
    by (simp add: serve_call_def serverCodec_ReadRequestHeader_def serverCodec_ReadRequestBody_def
          NewServerCodec_def example_env_def unmarshal_request_frame recv_empty Let_def)
  then obtain s' where run: "serve buffer_io example_env
       (NewServerCodec
          ([23, 5,0,0,0,0,0,0,0, 1,0,0,0, 77, 0,0,0,0, 0,0, 0,0,0,0]
           @ [23, 5,0,0,0,0,0,0,0, 1,0,0,0, 77, 0,0,0,0, 0,0, 0,0,0,0]) [])
       [ReadRequestHeader \<lparr> Request.ServiceMethod = [], Request.Seq = 0 \<rparr>,
        ReadRequestBody False,
        ReadRequestHeader \<lparr> Request.ServiceMethod = [], Request.Seq = 0 \<rparr>,
        ReadRequestBody False,
        ReadRequestHeader \<lparr> Request.ServiceMethod = [], Request.Seq = 0 \<rparr>]
     = Some (?rs, s')" ..
  have len: "length (assigned ?rs) < 2 ^ 64" by (simp add: assigned_Cons assigned_def)
  from server_sequence_uniqueness [OF run len] ev len show ?thesis
    by (simp add: assigned_Cons assigned_def)
qed

section \<open>Checksum enforcement on the client\<close>

text \<open>
  Claim C4. \<open>ReadResponseBody\<close> with a non-nil target returns
  \<open>UnexpectedChecksumError\<close> if and only if the body was received (the read of
  \<open>ResponseLen\<close> bytes returned nil) and the header's checksum is non-zero and differs
  from the CRC-32 (IEEE) of the received bytes. With a zero checksum in the header no
  checksum error is possible, whatever the body.
\<close>

theorem ReadResponseBody_checksum:
  "((\<exists>v c'. clientCodec_ReadResponseBody io env c True = Some (Some UnexpectedChecksumError, v, c'))
      \<longleftrightarrow> (\<exists>body r1. read io (clientCodec.reader c)
                          (replicate (unat (ResponseLen (response c))) 0) = Some (None, body, r1)
                     \<and> ResponseHeader.Checksum (response c) \<noteq> 0
                     \<and> ChecksumIEEE body \<noteq> ResponseHeader.Checksum (response c)))
   \<and> (ResponseHeader.Checksum (response c) = 0 \<longrightarrow>
        (\<forall>v c'. clientCodec_ReadResponseBody io env c True \<noteq> Some (Some UnexpectedChecksumError, v, c')))"
  by (auto simp add: clientCodec_ReadResponseBody_def Let_def
           split: option.splits sum.splits if_splits prod.splits)

theorem ReadResponseBody_checksum_witness:
  "(\<exists>v c'. clientCodec_ReadResponseBody buffer_io example_env
       ((NewClientCodec [1, 2, 3, 9] [] 0)\<lparr> response :=
          \<lparr> ResponseHeader.CompressType = 0, ResponseHeader.Error = [], ResponseHeader.ID = 1,
            ResponseLen = 3, ResponseHeader.Checksum = 5 \<rparr> \<rparr>) True
       = Some (Some UnexpectedChecksumError, v, c'))
   \<and> read buffer_io [1, 2, 3, 9] (replicate 3 0) = Some (None, [1, 2, 3], [9])
   \<and> ChecksumIEEE [1, 2, 3] \<noteq> 5
   \<and> clientCodec_ReadResponseBody buffer_io example_env
       ((NewClientCodec [1, 2, 3, 9] [] 0)\<lparr> response :=
          \<lparr> ResponseHeader.CompressType = 0, ResponseHeader.Error = [], ResponseHeader.ID = 1,
            ResponseLen = 3, ResponseHeader.Checksum = 0 \<rparr> \<rparr>) True
       = Some (None, Some [1, 2, 3],
           (NewClientCodec [9] [] 0)\<lparr> response :=
          \<lparr> ResponseHeader.CompressType = 0, ResponseHeader.Error = [], ResponseHeader.ID = 1,
            ResponseLen = 3, ResponseHeader.Checksum = 0 \<rparr> \<rparr>)"
proof -
  let ?c = "(NewClientCodec [1, 2, 3, 9 :: byte] ([] :: byte list) 0)\<lparr> response :=
          \<lparr> ResponseHeader.CompressType = 0, ResponseHeader.Error = [], ResponseHeader.ID = 1,
            ResponseLen = 3, ResponseHeader.Checksum = 5 \<rparr> \<rparr>"
  have ne: "ChecksumIEEE [1, 2, 3] \<noteq> 5" by (simp add: crc123)
  have rhs: "\<exists>body r1. read buffer_io (clientCodec.reader ?c)
                 (replicate (unat (ResponseLen (response ?c))) 0) = Some (None, body, r1)
               \<and> ResponseHeader.Checksum (response ?c) \<noteq> 0
               \<and> ChecksumIEEE body \<noteq> ResponseHeader.Checksum (response ?c)"
    using read_three ne by (simp add: NewClientCodec_def)
  from ReadResponseBody_checksum [of buffer_io example_env ?c, THEN conjunct1] rhs
  have lhs: "\<exists>v c'. clientCodec_ReadResponseBody buffer_io example_env ?c True
       = Some (Some UnexpectedChecksumError, v, c')" by simp
  have zero: "clientCodec_ReadResponseBody buffer_io example_env
       ((NewClientCodec [1, 2, 3, 9] [] 0)\<lparr> response :=
          \<lparr> ResponseHeader.CompressType = 0, ResponseHeader.Error = [], ResponseHeader.ID = 1,
            ResponseLen = 3, ResponseHeader.Checksum = 0 \<rparr> \<rparr>) True
       = Some (None, Some [1, 2, 3],
           (NewClientCodec [9] [] 0)\<lparr> response :=
          \<lparr> ResponseHeader.CompressType = 0, ResponseHeader.Error = [], ResponseHeader.ID = 1,
            ResponseLen = 3, ResponseHeader.Checksum = 0 \<rparr> \<rparr>)"
    by (simp add: clientCodec_ReadResponseBody_def NewClientCodec_def read_three example_env_def
          raw_compressor_def Let_def)
  from lhs read_three ne zero show ?thesis by simp
qed

section \<open>An unregistered compressor on the client's write\<close>

text \<open>
  Claim C5. When the client codec's configured compressor tag is not in the registry,
  \<open>WriteRequest\<close> returns \<open>NotFoundCompressorError\<close>, and it does so whatever the
  serializer and the transport would do (nothing is marshalled, no write is
  attempted, the call returns even on a transport that never would): the writer and
  the reader are as they were, so no byte reaches the wire, and the pending map is
  the one from before the call with the entry for the request's \<open>Seq\<close> and method
  added.
\<close>

theorem WriteRequest_unknown_compressor:
  assumes "Compressors env (compressor c) = None"
  shows "\<exists>c'. clientCodec_WriteRequest io env c r param = Some (Some NotFoundCompressorError, c')
           \<and> clientCodec.writer c' = clientCodec.writer c
           \<and> clientCodec.reader c' = clientCodec.reader c
           \<and> clientCodec.pending c' =
               (clientCodec.pending c)(Request.Seq r \<mapsto> Request.ServiceMethod r)
           \<and> clientCodec.pending c' (Request.Seq r) = Some (Request.ServiceMethod r)"
  using assms by (simp add: clientCodec_WriteRequest_def Let_def)

text \<open>
  An instance: tag 999 is not registered; the serializer would fail and the transport
  would never let a write return, and the call returns all the same.
\<close>

theorem WriteRequest_unknown_compressor_witness:
  "Compressors (example_env\<lparr> Marshal := (\<lambda>v. Inl 7) \<rparr>) (compressor (NewClientCodec () () 999)) = None
   \<and> clientCodec_WriteRequest stuck_io (example_env\<lparr> Marshal := (\<lambda>v. Inl 7) \<rparr>)
        (NewClientCodec () () 999)
        \<lparr> Request.ServiceMethod = ''Arith.Multiply'', Request.Seq = 1 \<rparr> (Some [7, 6])
      = Some (Some NotFoundCompressorError,
              (NewClientCodec () () 999)\<lparr> clientCodec.pending := [1 \<mapsto> ''Arith.Multiply''] \<rparr>)"
proof -
  let ?env = "example_env\<lparr> Marshal := (\<lambda>v. Inl 7) \<rparr>"
  let ?c = "NewClientCodec () () 999"
  let ?r = "\<lparr> Request.ServiceMethod = ''Arith.Multiply'', Request.Seq = 1 \<rparr>"
  have h: "Compressors ?env (compressor ?c) = None"
    by (simp add: example_env_def NewClientCodec_def)
  from WriteRequest_unknown_compressor [OF h, of stuck_io ?r "Some [7, 6]"]
  obtain c' where
    r: "clientCodec_WriteRequest stuck_io ?env ?c ?r (Some [7, 6])
          = Some (Some NotFoundCompressorError, c')"
    by blast
  then have "c' = ?c\<lparr> clientCodec.pending := [1 \<mapsto> ''Arith.Multiply''] \<rparr>"
    using h by (simp add: clientCodec_WriteRequest_def NewClientCodec_def Let_def)
  with r h show ?thesis by simp
qed

section \<open>A response with an unknown sequence number\<close>

text \<open>
  Claim C6, as amended. When the client decodes a response header whose id is not a
  key of its pending map, \<open>ReadResponseHeader\<close> still returns nil: it puts the
  header's id into the response's \<open>Seq\<close>, the header's error into its \<open>Error\<close>, the
  empty string into its \<open>ServiceMethod\<close>, and leaves the pending map as it was. No
  error is reported; telling an unknown id is left to the caller.
\<close>

theorem ReadResponseHeader_unknown_seq:
  assumes "recvFrame io (clientCodec.reader c) = Some (Inr data, r1)"
    and "ResponseHeader_Unmarshal env ResponseHeader_ResetHeader data = (None, h)"
    and "clientCodec.pending c (ResponseHeader.ID h) = None"
  shows "clientCodec_ReadResponseHeader io env c resp =
           Some (None,
                 \<lparr> Response.ServiceMethod = [], Response.Seq = ResponseHeader.ID h,
                   Response.Error = ResponseHeader.Error h \<rparr>,
                 c\<lparr> clientCodec.reader := r1, response := h \<rparr>)"
proof -
  have "(clientCodec.pending c)(ResponseHeader.ID h := None) = clientCodec.pending c"
    using assms(3) by (simp add: fun_upd_idem)
  with assms show ?thesis
    by (simp add: clientCodec_ReadResponseHeader_def Let_def)
qed

text \<open>
  The claim as stated fails: with an empty pending map, a well-formed header frame
  carrying id 7 is accepted.
\<close>

theorem ReadResponseHeader_unknown_seq_counterexample:
  "clientCodec.pending (NewClientCodec
       [22, 7,0,0,0,0,0,0,0, 0,0,0,0, 0,0,0,0, 0,0, 0,0,0,0 :: byte] ([] :: byte list) 0) 7 = None
   \<and> clientCodec_ReadResponseHeader buffer_io example_env
        (NewClientCodec [22, 7,0,0,0,0,0,0,0, 0,0,0,0, 0,0,0,0, 0,0, 0,0,0,0] [] 0)
        \<lparr> Response.ServiceMethod = [], Response.Seq = 0, Response.Error = [] \<rparr>
      = Some (None,
              \<lparr> Response.ServiceMethod = [], Response.Seq = 7, Response.Error = [] \<rparr>,
              (NewClientCodec [] [] 0)\<lparr> response :=
                 \<lparr> ResponseHeader.CompressType = 0, ResponseHeader.Error = [],
                   ResponseHeader.ID = 7, ResponseLen = 0, ResponseHeader.Checksum = 0 \<rparr> \<rparr>)"
  using recv_response_frame [of "[]"]
  by (simp add: clientCodec_ReadResponseHeader_def NewClientCodec_def example_env_def
        unmarshal_response_frame Let_def)

theorem ReadResponseHeader_unknown_seq_witness:
  "recvFrame buffer_io [22, 7,0,0,0,0,0,0,0, 0,0,0,0, 0,0,0,0, 0,0, 0,0,0,0]
     = Some (Inr [7,0,0,0,0,0,0,0, 0,0,0,0, 0,0,0,0, 0,0, 0,0,0,0], [])
   \<and> clientCodec.pending (NewClientCodec
         [22, 7,0,0,0,0,0,0,0, 0,0,0,0, 0,0,0,0, 0,0, 0,0,0,0 :: byte] ([] :: byte list) 0) 7 = None
   \<and> clientCodec_ReadResponseHeader buffer_io example_env
        (NewClientCodec [22, 7,0,0,0,0,0,0,0, 0,0,0,0, 0,0,0,0, 0,0, 0,0,0,0] [] 0)
        \<lparr> Response.ServiceMethod = ''stale'', Response.Seq = 0, Response.Error = [] \<rparr>
      = Some (None,
              \<lparr> Response.ServiceMethod = [], Response.Seq = 7, Response.Error = [] \<rparr>,
              (NewClientCodec [] [] 0)\<lparr> response :=
                 \<lparr> ResponseHeader.CompressType = 0, ResponseHeader.Error = [],
                   ResponseHeader.ID = 7, ResponseLen = 0, ResponseHeader.Checksum = 0 \<rparr> \<rparr>)"
proof -
  let ?c = "NewClientCodec
         [22, 7,0,0,0,0,0,0,0, 0,0,0,0, 0,0,0,0, 0,0, 0,0,0,0 :: byte] ([] :: byte list) 0"
  let ?h = "\<lparr> ResponseHeader.CompressType = 0, ResponseHeader.Error = [],
                   ResponseHeader.ID = 7, ResponseLen = 0, ResponseHeader.Checksum = 0 \<rparr>"
  have h1: "recvFrame buffer_io (clientCodec.reader ?c)
     = Some (Inr [7,0,0,0,0,0,0,0, 0,0,0,0, 0,0,0,0, 0,0, 0,0,0,0], [])"
    using recv_response_frame [of "[]"] by (simp add: NewClientCodec_def)
  have h2: "ResponseHeader_Unmarshal example_env ResponseHeader_ResetHeader
              [7,0,0,0,0,0,0,0, 0,0,0,0, 0,0,0,0, 0,0, 0,0,0,0] = (None, ?h)"
    by (simp add: unmarshal_response_frame example_env_def)
  have h3: "clientCodec.pending ?c (ResponseHeader.ID ?h) = None"
    by (simp add: NewClientCodec_def)
  from ReadResponseHeader_unknown_seq [OF h1 h2 h3,
      of "\<lparr> Response.ServiceMethod = ''stale'', Response.Seq = 0, Response.Error = [] \<rparr>"] h1 h3
  show ?thesis by (simp add: NewClientCodec_def)
qed

section \<open>Partial reads and writes in the framing helpers\<close>

text \<open>
  Claim C7, as amended. On a transport that keeps the \<open>io.Writer\<close> and \<open>io.Reader\<close>
  contracts: \<open>write\<close> never returns an error of the \<open>net.Error\<close> category; whenever a
  \<open>Write\<close> reports one, transient or not, the loop goes on after the bytes that call
  took; an error outside the category is returned at once, with no further \<open>Write\<close>,
  and so is the nil of a \<open>Write\<close> that took all that was left; when \<open>write\<close> returns
  nil the writer has taken the whole buffer, in order, and when it returns an error
  the writer has taken a prefix of it. \<open>read\<close> goes on through nil results and
  \<open>net.Error\<close> results alike, transient or not, returns at once an error outside the
  category, and returns nil once the buffer is full; when it returns nil the buffer
  holds exactly the next \<open>len(data)\<close> bytes of the stream, and when it returns an
  error the bytes taken from the stream are a prefix of the buffer.
\<close>

theorem framing_partial_io:
  assumes "writer_law io accepted" and "reader_law io unread"
  shows "(write_bytes io w data = Some (werr, w') \<longrightarrow>
            \<not> is_net_Error werr
            \<and> (\<exists>k\<le>length data. accepted w' = accepted w @ take k data
                               \<and> (werr = None \<longrightarrow> k = length data)))
       \<and> (index < length data \<and> Write io w (drop index data) = (n, Some (NetError t), w1) \<longrightarrow>
            write_loop io w data index = write_loop io w1 data (index + n))
       \<and> (index < length data \<and> Write io w (drop index data) = (n, Some e, w1)
            \<and> \<not> is_net_Error (Some e) \<longrightarrow>
            write_loop io w data index = Some (Some e, w1))
       \<and> (index < length data \<and> Write io w (drop index data) = (n, None, w1) \<longrightarrow>
            write_loop io w data index = Some (None, w1) \<and> index + n = length data)
       \<and> (read io r buf = Some (rerr, buf', r') \<longrightarrow>
            \<not> is_net_Error rerr \<and> length buf' = length buf
            \<and> (\<exists>k\<le>length buf. unread r = take k buf' @ unread r'
                              \<and> (rerr = None \<longrightarrow> k = length buf)))
       \<and> (index < length buf \<and> Read io r (length buf - index) = (bs, rerr1, r1)
            \<and> (rerr1 = None \<or> is_net_Error rerr1) \<longrightarrow>
            read_loop io r buf index
              = read_loop io r1 (store buf index (take (length buf - index) bs))
                  (index + length (take (length buf - index) bs)))
       \<and> (index < length buf \<and> Read io r (length buf - index) = (bs, Some e, r1)
            \<and> \<not> is_net_Error (Some e) \<longrightarrow>
            read_loop io r buf index
              = Some (Some e, store buf index (take (length buf - index) bs), r1))
       \<and> (length buf \<le> index \<longrightarrow> read_loop io r buf index = Some (None, buf, r))"
proof -
  have w1: "write_bytes io w data = Some (werr, w') \<longrightarrow>
            \<not> is_net_Error werr
            \<and> (\<exists>k\<le>length data. accepted w' = accepted w @ take k data
                               \<and> (werr = None \<longrightarrow> k = length data))"
    using write_contract [OF assms(1)] by blast
  have w2: "index < length data \<and> Write io w (drop index data) = (n, Some (NetError t), w1) \<longrightarrow>
            write_loop io w data index = write_loop io w1 data (index + n)"
    by (subst write_loop.simps) simp
  have w3: "index < length data \<and> Write io w (drop index data) = (n, Some e, w1)
            \<and> \<not> is_net_Error (Some e) \<longrightarrow>
            write_loop io w data index = Some (Some e, w1)"
    by (subst write_loop.simps) simp
  have w4: "index < length data \<and> Write io w (drop index data) = (n, None, w1) \<longrightarrow>
            write_loop io w data index = Some (None, w1) \<and> index + n = length data"
  proof (intro impI conjI)
    assume a: "index < length data \<and> Write io w (drop index data) = (n, None, w1)"
    then show "write_loop io w data index = Some (None, w1)"
      by (subst write_loop.simps) simp
    from assms(1) a have "n = length (drop index data)"
      unfolding writer_law_def by (metis (mono_tags, lifting) case_prod_conv)
    with a show "index + n = length data" by simp
  qed
  have r1: "read io r buf = Some (rerr, buf', r') \<longrightarrow>
            \<not> is_net_Error rerr \<and> length buf' = length buf
            \<and> (\<exists>k\<le>length buf. unread r = take k buf' @ unread r'
                              \<and> (rerr = None \<longrightarrow> k = length buf))"
    using read_contract [OF assms(2)] by blast
  have r2: "index < length buf \<and> Read io r (length buf - index) = (bs, rerr1, r1)
            \<and> (rerr1 = None \<or> is_net_Error rerr1) \<longrightarrow>
            read_loop io r buf index
              = read_loop io r1 (store buf index (take (length buf - index) bs))
                  (index + length (take (length buf - index) bs))"
    by (subst read_loop.simps) (auto simp add: Let_def)
  have r3: "index < length buf \<and> Read io r (length buf - index) = (bs, Some e, r1)
            \<and> \<not> is_net_Error (Some e) \<longrightarrow>
            read_loop io r buf index
              = Some (Some e, store buf index (take (length buf - index) bs), r1)"
    by (subst read_loop.simps) (simp add: Let_def)
  have r4: "length buf \<le> index \<longrightarrow> read_loop io r buf index = Some (None, buf, r)"
    by (subst read_loop.simps) simp
  from w1 w2 w3 w4 r1 r2 r3 r4 show ?thesis by blast
qed

text \<open>
  The claim as stated fails where it says that only transient conditions are retried
  and any other error is propagated at once: a \<open>Write\<close> and a \<open>Read\<close> that report a
  fatal \<open>net.Error\<close> once are both retried, and the helpers return nil; on a writer
  that reports the fatal \<open>net.Error\<close> every time, \<open>write\<close> never returns.
\<close>

theorem framing_partial_io_counterexample:
  "Write script_io ([(0, NetError False)], []) [1, 2, 3]
     = (0, Some (NetError False), ([], []))
   \<and> write_bytes script_io ([(0, NetError False)], []) [1, 2, 3] = Some (None, ([], [1, 2, 3]))
   \<and> Read script_io ([(0, Some (NetError False))], [1, 2, 3]) 3
     = ([], Some (NetError False), ([], [1, 2, 3]))
   \<and> read script_io ([(0, Some (NetError False))], [1, 2, 3]) [0, 0, 0]
     = Some (None, [1, 2, 3], ([], []))
   \<and> Write stuck_io () [1, 2, 3] = (0, Some (NetError False), ())
   \<and> write_bytes stuck_io () [1, 2, 3] = None"
proof (intro conjI)
  show "Write script_io ([(0, NetError False)], []) [1, 2, 3]
     = (0, Some (NetError False), ([], []))"
    by (simp add: script_io_def script_Write_def)
  show "write_bytes script_io ([(0, NetError False)], []) [1, 2, 3] = Some (None, ([], [1, 2, 3]))"
    by (simp add: write_bytes_def write_loop.simps script_io_def script_Write_def)
  show "Read script_io ([(0, Some (NetError False))], [1, 2, 3]) 3
     = ([], Some (NetError False), ([], [1, 2, 3]))"
    by (simp add: script_io_def script_Read_def)
  show "read script_io ([(0, Some (NetError False))], [1, 2, 3]) [0, 0, 0]
     = Some (None, [1, 2, 3], ([], []))"
    by (simp add: read_def read_loop.simps script_io_def script_Read_def buf_Read_def
          store_def Let_def)
  show "Write stuck_io () [1, 2, 3] = (0, Some (NetError False), ())"
    by (simp add: stuck_io_def)
  show "write_bytes stuck_io () [1, 2, 3] = None"
    by (rule write_stuck)
qed

theorem framing_partial_io_witness:
  "writer_law script_io snd \<and> reader_law script_io snd
   \<and> write_bytes script_io ([(1, NetError True), (0, NetError False)], []) [1, 2, 3]
       = Some (None, ([], [1, 2, 3]))
   \<and> write_bytes script_io ([(1, NetError True), (1, OtherError 0)], []) [1, 2, 3]
       = Some (Some (OtherError 0), ([], [1, 2]))
   \<and> read script_io ([(1, None), (0, Some (NetError False))], [1, 2, 3, 4]) [0, 0, 0]
       = Some (None, [1, 2, 3], ([], [4]))
   \<and> read script_io ([(1, None), (1, Some (OtherError 0))], [1, 2, 3, 4]) [0, 0, 0]
       = Some (Some (OtherError 0), [1, 2, 0], ([], [3, 4]))"
proof -
  note t = framing_partial_io [OF writer_law_script reader_law_script]
  let ?w = "([(1, NetError True), (0, NetError False)], []) :: script_writer"
  let ?w1 = "([(0, NetError False)], [1]) :: script_writer"
  have a: "0 < length [1, 2, 3 :: byte]
           \<and> Write script_io ?w (drop 0 [1, 2, 3]) = (1, Some (NetError True), ?w1)"
    by (simp add: script_io_def script_Write_def)
  from t [where index = 0 and data = "[1, 2, 3]" and w = ?w and n = 1 and t = True and ?w1.0 = ?w1,
      THEN conjunct2, THEN conjunct1, THEN mp, OF a]
  have step: "write_loop script_io ?w [1, 2, 3] 0 = write_loop script_io ?w1 [1, 2, 3] (0 + 1)" .
  have rest: "write_loop script_io ?w1 [1, 2, 3] (0 + 1) = Some (None, ([], [1, 2, 3]))"
    by (simp add: write_loop.simps script_io_def script_Write_def)
  have w: "write_bytes script_io ?w [1, 2, 3] = Some (None, ([], [1, 2, 3]))"
    using step rest by (simp add: write_bytes_def)
  have w': "write_bytes script_io ([(1, NetError True), (1, OtherError 0)], []) [1, 2, 3]
       = Some (Some (OtherError 0), ([], [1, 2]))"
    by (simp add: write_bytes_def write_loop.simps script_io_def script_Write_def)
  have r: "read script_io ([(1, None), (0, Some (NetError False))], [1, 2, 3, 4]) [0, 0, 0]
       = Some (None, [1, 2, 3], ([], [4]))"
    by (simp add: read_def read_loop.simps script_io_def script_Read_def buf_Read_def
          store_def Let_def)
  have r': "read script_io ([(1, None), (1, Some (OtherError 0))], [1, 2, 3, 4]) [0, 0, 0]
       = Some (Some (OtherError 0), [1, 2, 0], ([], [3, 4]))"
    by (simp add: read_def read_loop.simps script_io_def script_Read_def buf_Read_def
          store_def Let_def)
  from writer_law_script reader_law_script w w' r r' show ?thesis by simp
qed

section \<open>A compressor mismatch on the client\<close>

text \<open>
  Claim C8. In \<open>ReadResponseBody\<close> with a non-nil target, when the body has been read
  and the checksum check has passed (the header's checksum is zero or equals the
  CRC-32 of the bytes read) and the header's compress type differs from the client's
  configured compressor, the call returns \<open>CompressorTypeMismatchError\<close>; by then
  exactly \<open>ResponseLen\<close> bytes, the body, have been taken from the stream, which
  continues with what followed them.
\<close>

theorem ReadResponseBody_compressor_mismatch:
  assumes "reader_law io unread"
    and "read io (clientCodec.reader c) (replicate (unat (ResponseLen (response c))) 0)
           = Some (None, body, r1)"
    and "ResponseHeader.Checksum (response c) = 0
           \<or> ChecksumIEEE body = ResponseHeader.Checksum (response c)"
    and "ResponseHeader.CompressType (response c) \<noteq> compressor c"
  shows "clientCodec_ReadResponseBody io env c True
           = Some (Some CompressorTypeMismatchError, None, c\<lparr> clientCodec.reader := r1 \<rparr>)
         \<and> length body = unat (ResponseLen (response c))
         \<and> unread (clientCodec.reader c) = body @ unread r1"
proof -
  from read_consumed [OF assms(1,2)]
  have "length body = unat (ResponseLen (response c))"
    and "unread (clientCodec.reader c) = body @ unread r1" by auto
  moreover have "clientCodec_ReadResponseBody io env c True
           = Some (Some CompressorTypeMismatchError, None, c\<lparr> clientCodec.reader := r1 \<rparr>)"
    using assms(2,3,4) by (auto simp add: clientCodec_ReadResponseBody_def Let_def)
  ultimately show ?thesis by simp
qed

theorem ReadResponseBody_compressor_mismatch_witness:
  "reader_law buffer_io (\<lambda>s. s)
   \<and> read buffer_io [1, 2, 3, 9] (replicate 3 0) = Some (None, [1, 2, 3], [9])
   \<and> clientCodec_ReadResponseBody buffer_io example_env
       ((NewClientCodec [1, 2, 3, 9] [] 1)\<lparr> response :=
          \<lparr> ResponseHeader.CompressType = 2, ResponseHeader.Error = [], ResponseHeader.ID = 1,
            ResponseLen = 3, ResponseHeader.Checksum = 0x55BC801D \<rparr> \<rparr>) True
       = Some (Some CompressorTypeMismatchError, None,
               (NewClientCodec [9] [] 1)\<lparr> response :=
          \<lparr> ResponseHeader.CompressType = 2, ResponseHeader.Error = [], ResponseHeader.ID = 1,
            ResponseLen = 3, ResponseHeader.Checksum = 0x55BC801D \<rparr> \<rparr>)"
proof -
  let ?c = "(NewClientCodec [1, 2, 3, 9 :: byte] ([] :: byte list) 1)\<lparr> response :=
          \<lparr> ResponseHeader.CompressType = 2, ResponseHeader.Error = [], ResponseHeader.ID = 1,
            ResponseLen = 3, ResponseHeader.Checksum = 0x55BC801D \<rparr> \<rparr>"
  note rd = read_three
  from rd have h2: "read buffer_io (clientCodec.reader ?c)
       (replicate (unat (ResponseLen (response ?c))) 0) = Some (None, [1, 2, 3], [9])"
    by (simp add: NewClientCodec_def)
  have h3: "ResponseHeader.Checksum (response ?c) = 0
            \<or> ChecksumIEEE [1, 2, 3] = ResponseHeader.Checksum (response ?c)"
    by (simp add: crc123)
  have h4: "ResponseHeader.CompressType (response ?c) \<noteq> compressor ?c"
    by (simp add: NewClientCodec_def)
  from ReadResponseBody_compressor_mismatch [OF reader_law_buffer h2 h3 h4, of example_env]
       reader_law_buffer rd
  show ?thesis by (simp add: NewClientCodec_def)
qed

section \<open>An unregistered compressor on the server's body read\<close>

text \<open>
  Claim C9, as amended. When the request header carries a compress type that is not in
  the registry, \<open>ReadRequestBody\<close> returns \<open>NotFoundCompressorError\<close> provided the
  target is non-nil, the body has been read and the checksum check has passed (the
  header's checksum is zero or equals the CRC-32 of the bytes read); by then exactly
  \<open>RequestLen\<close> bytes have been taken from the stream. And whatever the target and the
  outcome, a returned \<open>ReadRequestBody\<close> has taken from the stream no more than the
  \<open>RequestLen\<close> bytes the header declared.
\<close>

theorem ReadRequestBody_unknown_compressor:
  assumes "reader_law io unread"
  shows "(read io (serverCodec.reader s) (replicate (unat (RequestLen (request s))) 0)
             = Some (None, body, r1)
          \<and> (RequestHeader.Checksum (request s) = 0
               \<or> ChecksumIEEE body = RequestHeader.Checksum (request s))
          \<and> Compressors env (RequestHeader.CompressType (request s)) = None
          \<longrightarrow> serverCodec_ReadRequestBody io env s True
                = Some (Some NotFoundCompressorError, None, s\<lparr> serverCodec.reader := r1 \<rparr>)
              \<and> length body = unat (RequestLen (request s))
              \<and> unread (serverCodec.reader s) = body @ unread r1)
         \<and> (serverCodec_ReadRequestBody io env s param = Some (err, v, s')
              \<longrightarrow> (\<exists>bs. length bs \<le> unat (RequestLen (request s))
                        \<and> unread (serverCodec.reader s) = bs @ unread (serverCodec.reader s')))"
proof (intro conjI impI)
  assume a: "read io (serverCodec.reader s) (replicate (unat (RequestLen (request s))) 0)
             = Some (None, body, r1)
          \<and> (RequestHeader.Checksum (request s) = 0
               \<or> ChecksumIEEE body = RequestHeader.Checksum (request s))
          \<and> Compressors env (RequestHeader.CompressType (request s)) = None"
  then have rd: "read io (serverCodec.reader s) (replicate (unat (RequestLen (request s))) 0)
             = Some (None, body, r1)" by simp
  from read_consumed [OF assms rd]
  show "length body = unat (RequestLen (request s))"
    and "unread (serverCodec.reader s) = body @ unread r1" by auto
  from a show "serverCodec_ReadRequestBody io env s True
                = Some (Some NotFoundCompressorError, None, s\<lparr> serverCodec.reader := r1 \<rparr>)"
    by (auto simp add: serverCodec_ReadRequestBody_def Let_def)
next
  assume r: "serverCodec_ReadRequestBody io env s param = Some (err, v, s')"
  show "\<exists>bs. length bs \<le> unat (RequestLen (request s))
                        \<and> unread (serverCodec.reader s) = bs @ unread (serverCodec.reader s')"
  proof (cases "\<not> param \<and> RequestLen (request s) = 0")
    case True
    with r have "s' = s" by (simp add: serverCodec_ReadRequestBody_def)
    then show ?thesis by (intro exI [of _ "[]"]) simp
  next
    case False
    with r obtain e d r1 where
      rd: "read io (serverCodec.reader s) (replicate (unat (RequestLen (request s))) 0)
             = Some (e, d, r1)" and s': "serverCodec.reader s' = r1"
      by (auto simp add: serverCodec_ReadRequestBody_def Let_def
               split: option.splits sum.splits if_splits prod.splits)
    from read_consumed [OF assms rd] s' show ?thesis by auto
  qed
qed

text \<open>
  The claim as stated fails: with an unregistered compress type in the header, the
  body read returns \<open>UnexpectedChecksumError\<close> when the header's non-zero checksum does
  not match (the checksum is checked first), returns nil when the target is nil (the
  body is discarded unchecked), and returns the transport's error when the stream ends
  early.
\<close>

theorem ReadRequestBody_unknown_compressor_counterexample:
  "Compressors example_env 999 = None
   \<and> serverCodec_ReadRequestBody buffer_io example_env
       ((NewServerCodec [1, 2, 3, 9] [])\<lparr> request :=
          \<lparr> RequestHeader.CompressType = 999, Method = ''M'', RequestHeader.ID = 1,
            RequestLen = 3, RequestHeader.Checksum = 1 \<rparr> \<rparr>) True
       = Some (Some UnexpectedChecksumError, None,
               (NewServerCodec [9] [])\<lparr> request :=
          \<lparr> RequestHeader.CompressType = 999, Method = ''M'', RequestHeader.ID = 1,
            RequestLen = 3, RequestHeader.Checksum = 1 \<rparr> \<rparr>)
   \<and> serverCodec_ReadRequestBody buffer_io example_env
       ((NewServerCodec [1, 2, 3, 9] [])\<lparr> request :=
          \<lparr> RequestHeader.CompressType = 999, Method = ''M'', RequestHeader.ID = 1,
            RequestLen = 3, RequestHeader.Checksum = 0 \<rparr> \<rparr>) False
       = Some (None, None,
               (NewServerCodec [9] [])\<lparr> request :=
          \<lparr> RequestHeader.CompressType = 999, Method = ''M'', RequestHeader.ID = 1,
            RequestLen = 3, RequestHeader.Checksum = 0 \<rparr> \<rparr>)
   \<and> serverCodec_ReadRequestBody buffer_io example_env
       ((NewServerCodec [1] [])\<lparr> request :=
          \<lparr> RequestHeader.CompressType = 999, Method = ''M'', RequestHeader.ID = 1,
            RequestLen = 3, RequestHeader.Checksum = 0 \<rparr> \<rparr>) True
       = Some (Some (IOError EOF), None,
               (NewServerCodec [] [])\<lparr> request :=
          \<lparr> RequestHeader.CompressType = 999, Method = ''M'', RequestHeader.ID = 1,
            RequestLen = 3, RequestHeader.Checksum = 0 \<rparr> \<rparr>)"
  by (simp add: serverCodec_ReadRequestBody_def NewServerCodec_def example_env_def
        read_three read_short crc123 Let_def)

theorem ReadRequestBody_unknown_compressor_witness:
  "reader_law buffer_io (\<lambda>s. s)
   \<and> read buffer_io [1, 2, 3, 9] (replicate 3 0) = Some (None, [1, 2, 3], [9])
   \<and> Compressors example_env 999 = None
   \<and> serverCodec_ReadRequestBody buffer_io example_env
       ((NewServerCodec [1, 2, 3, 9] [])\<lparr> request :=
          \<lparr> RequestHeader.CompressType = 999, Method = ''M'', RequestHeader.ID = 1,
            RequestLen = 3, RequestHeader.Checksum = 0x55BC801D \<rparr> \<rparr>) True
       = Some (Some NotFoundCompressorError, None,
               (NewServerCodec [9] [])\<lparr> request :=
          \<lparr> RequestHeader.CompressType = 999, Method = ''M'', RequestHeader.ID = 1,
            RequestLen = 3, RequestHeader.Checksum = 0x55BC801D \<rparr> \<rparr>)
   \<and> (\<exists>bs. length bs \<le> 3 \<and> [1, 2, 3, 9] = bs @ [9 :: byte])"
proof -
  let ?s = "(NewServerCodec [1, 2, 3, 9 :: byte] ([] :: byte list))\<lparr> request :=
          \<lparr> RequestHeader.CompressType = 999, Method = ''M'', RequestHeader.ID = 1,
            RequestLen = 3, RequestHeader.Checksum = 0x55BC801D \<rparr> \<rparr>"
  let ?s' = "(NewServerCodec [9 :: byte] ([] :: byte list))\<lparr> request :=
          \<lparr> RequestHeader.CompressType = 999, Method = ''M'', RequestHeader.ID = 1,
            RequestLen = 3, RequestHeader.Checksum = 0x55BC801D \<rparr> \<rparr>"
  note rd = read_three
  have none: "Compressors example_env 999 = None" by (simp add: example_env_def)
  have pre: "read buffer_io (serverCodec.reader ?s) (replicate (unat (RequestLen (request ?s))) 0)
             = Some (None, [1, 2, 3], [9])
          \<and> (RequestHeader.Checksum (request ?s) = 0
               \<or> ChecksumIEEE [1, 2, 3] = RequestHeader.Checksum (request ?s))
          \<and> Compressors example_env (RequestHeader.CompressType (request ?s)) = None"
    using rd none by (simp add: NewServerCodec_def crc123)
  note t = ReadRequestBody_unknown_compressor [OF reader_law_buffer,
      of ?s "[1, 2, 3]" "[9]" example_env True "Some NotFoundCompressorError" None ?s']
  from t [THEN conjunct1, THEN mp, OF pre]
  have res: "serverCodec_ReadRequestBody buffer_io example_env ?s True
         = Some (Some NotFoundCompressorError, None, ?s\<lparr> serverCodec.reader := [9] \<rparr>)"
    by simp
  then have res': "serverCodec_ReadRequestBody buffer_io example_env ?s True
         = Some (Some NotFoundCompressorError, None, ?s')"
    by (simp add: NewServerCodec_def)
  from t [THEN conjunct2, THEN mp, OF res']
  have "\<exists>bs. length bs \<le> unat (RequestLen (request ?s))
                 \<and> serverCodec.reader ?s = bs @ serverCodec.reader ?s'" .
  then have "\<exists>bs. length bs \<le> 3 \<and> [1, 2, 3, 9] = bs @ [9 :: byte]"
    by (simp add: NewServerCodec_def)
  with res' reader_law_buffer rd none show ?thesis by simp
qed

section \<open>Discarding a body\<close>

lemma client_nil_read:
  assumes rd: "read io (clientCodec.reader c) (replicate (unat (ResponseLen (response c))) 0)
             = Some (None, body, r1)"
  shows "clientCodec_ReadResponseBody io env c False
             = Some (None, None, c\<lparr> clientCodec.reader := r1 \<rparr>)"
proof (cases "ResponseLen (response c) = 0")
  case True
  with rd have "r1 = clientCodec.reader c"
    by (simp add: read_def read_loop.simps [of _ _ "[]"])
  with True show ?thesis by (simp add: clientCodec_ReadResponseBody_def)
next
  case False
  with rd show ?thesis by (simp add: clientCodec_ReadResponseBody_def)
qed

lemma server_nil_read:
  assumes rd: "read io (serverCodec.reader s) (replicate (unat (RequestLen (request s))) 0)
             = Some (None, body, r1)"
  shows "serverCodec_ReadRequestBody io env s False
             = Some (None, None, s\<lparr> serverCodec.reader := r1 \<rparr>)"
proof (cases "RequestLen (request s) = 0")
  case True
  with rd have "r1 = serverCodec.reader s"
    by (simp add: read_def read_loop.simps [of _ _ "[]"])
  with True show ?thesis by (simp add: serverCodec_ReadRequestBody_def)
next
  case False
  with rd show ?thesis by (simp add: serverCodec_ReadRequestBody_def)
qed

section \<open>Body reads with a nil target\<close>

text \<open>
  Claim C10. On both codecs, a body read with a nil target does nothing but read the
  length declared in the current header. If that length is 0 it returns nil and
  leaves the codec, its reader included, untouched, with no read at all. Otherwise
  its outcome is that of the read alone: when the read of that many bytes returns
  nil so does the call, on the in-memory stream that is whenever the stream holds
  that many bytes, and exactly that many bytes have then been taken from the stream;
  no value is produced; and whatever the header's checksum and compress type are, the
  error is never \<open>UnexpectedChecksumError\<close>, \<open>NotFoundCompressorError\<close> or
  \<open>CompressorTypeMismatchError\<close>.
\<close>

theorem body_read_nil_target:
  assumes "reader_law io unread"
  shows "(ResponseLen (response c) = 0 \<longrightarrow>
            clientCodec_ReadResponseBody io env c False = Some (None, None, c))
       \<and> (clientCodec_ReadResponseBody io env c False = Some (err, v, c') \<longrightarrow>
            v = None \<and> err \<noteq> Some UnexpectedChecksumError \<and> err \<noteq> Some NotFoundCompressorError
            \<and> err \<noteq> Some CompressorTypeMismatchError
            \<and> (\<exists>bs. length bs \<le> unat (ResponseLen (response c))
                   \<and> unread (clientCodec.reader c) = bs @ unread (clientCodec.reader c')
                   \<and> (err = None \<longrightarrow> length bs = unat (ResponseLen (response c)))))
       \<and> (read io (clientCodec.reader c) (replicate (unat (ResponseLen (response c))) 0)
             = Some (None, body, r1) \<longrightarrow>
            clientCodec_ReadResponseBody io env c False
             = Some (None, None, c\<lparr> clientCodec.reader := r1 \<rparr>))
       \<and> (unat (ResponseLen (response cb)) \<le> length (clientCodec.reader cb) \<longrightarrow>
            clientCodec_ReadResponseBody buffer_io env cb False
             = Some (None, None,
                     cb\<lparr> clientCodec.reader :=
                           drop (unat (ResponseLen (response cb))) (clientCodec.reader cb) \<rparr>))
       \<and> (RequestLen (request s) = 0 \<longrightarrow>
            serverCodec_ReadRequestBody io env s False = Some (None, None, s))
       \<and> (serverCodec_ReadRequestBody io env s False = Some (err, v, s') \<longrightarrow>
            v = None \<and> err \<noteq> Some UnexpectedChecksumError \<and> err \<noteq> Some NotFoundCompressorError
            \<and> err \<noteq> Some CompressorTypeMismatchError
            \<and> (\<exists>bs. length bs \<le> unat (RequestLen (request s))
                   \<and> unread (serverCodec.reader s) = bs @ unread (serverCodec.reader s')
                   \<and> (err = None \<longrightarrow> length bs = unat (RequestLen (request s)))))
       \<and> (read io (serverCodec.reader s) (replicate (unat (RequestLen (request s))) 0)
             = Some (None, body, r1) \<longrightarrow>
            serverCodec_ReadRequestBody io env s False
             = Some (None, None, s\<lparr> serverCodec.reader := r1 \<rparr>))
       \<and> (unat (RequestLen (request sb)) \<le> length (serverCodec.reader sb) \<longrightarrow>
            serverCodec_ReadRequestBody buffer_io env sb False
             = Some (None, None,
                     sb\<lparr> serverCodec.reader :=
                           drop (unat (RequestLen (request sb))) (serverCodec.reader sb) \<rparr>))"
proof -
  have c0: "ResponseLen (response c) = 0 \<longrightarrow>
            clientCodec_ReadResponseBody io env c False = Some (None, None, c)"
    by (simp add: clientCodec_ReadResponseBody_def)
  have s0: "RequestLen (request s) = 0 \<longrightarrow>
            serverCodec_ReadRequestBody io env s False = Some (None, None, s)"
    by (simp add: serverCodec_ReadRequestBody_def)
  have c2: "read io (clientCodec.reader c) (replicate (unat (ResponseLen (response c))) 0)
             = Some (None, body, r1) \<longrightarrow>
            clientCodec_ReadResponseBody io env c False
             = Some (None, None, c\<lparr> clientCodec.reader := r1 \<rparr>)"
    by (intro impI) (erule client_nil_read)
  have s2: "read io (serverCodec.reader s) (replicate (unat (RequestLen (request s))) 0)
             = Some (None, body, r1) \<longrightarrow>
            serverCodec_ReadRequestBody io env s False
             = Some (None, None, s\<lparr> serverCodec.reader := r1 \<rparr>)"
    by (intro impI) (erule server_nil_read)
  have c3: "unat (ResponseLen (response cb)) \<le> length (clientCodec.reader cb) \<longrightarrow>
            clientCodec_ReadResponseBody buffer_io env cb False
             = Some (None, None,
                     cb\<lparr> clientCodec.reader :=
                           drop (unat (ResponseLen (response cb))) (clientCodec.reader cb) \<rparr>)"
    by (intro impI) (rule client_nil_read, erule read_buffer)
  have s3: "unat (RequestLen (request sb)) \<le> length (serverCodec.reader sb) \<longrightarrow>
            serverCodec_ReadRequestBody buffer_io env sb False
             = Some (None, None,
                     sb\<lparr> serverCodec.reader :=
                           drop (unat (RequestLen (request sb))) (serverCodec.reader sb) \<rparr>)"
    by (intro impI) (rule server_nil_read, erule read_buffer)
  have c1: "v = None \<and> err \<noteq> Some UnexpectedChecksumError \<and> err \<noteq> Some NotFoundCompressorError
            \<and> err \<noteq> Some CompressorTypeMismatchError
            \<and> (\<exists>bs. length bs \<le> unat (ResponseLen (response c))
                   \<and> unread (clientCodec.reader c) = bs @ unread (clientCodec.reader c')
                   \<and> (err = None \<longrightarrow> length bs = unat (ResponseLen (response c))))"
    if r: "clientCodec_ReadResponseBody io env c False = Some (err, v, c')"
  proof (cases "ResponseLen (response c) = 0")
    case True
    with r have "c' = c" "err = None" "v = None" by (simp_all add: clientCodec_ReadResponseBody_def)
    with True show ?thesis by simp
  next
    case False
    with r obtain e d r1 where
      rd: "read io (clientCodec.reader c) (replicate (unat (ResponseLen (response c))) 0)
             = Some (e, d, r1)"
      and c': "clientCodec.reader c' = r1" and v: "v = None" and err: "err = map_option IOError e"
      by (auto simp add: clientCodec_ReadResponseBody_def split: option.splits prod.splits)
    from read_consumed [OF assms rd] c' v err show ?thesis by auto
  qed
  have s1: "v = None \<and> err \<noteq> Some UnexpectedChecksumError \<and> err \<noteq> Some NotFoundCompressorError
            \<and> err \<noteq> Some CompressorTypeMismatchError
            \<and> (\<exists>bs. length bs \<le> unat (RequestLen (request s))
                   \<and> unread (serverCodec.reader s) = bs @ unread (serverCodec.reader s')
                   \<and> (err = None \<longrightarrow> length bs = unat (RequestLen (request s))))"
    if r: "serverCodec_ReadRequestBody io env s False = Some (err, v, s')"
  proof (cases "RequestLen (request s) = 0")
    case True
    with r have "s' = s" "err = None" "v = None" by (simp_all add: serverCodec_ReadRequestBody_def)
    with True show ?thesis by simp
  next
    case False
    with r obtain e d r1 where
      rd: "read io (serverCodec.reader s) (replicate (unat (RequestLen (request s))) 0)
             = Some (e, d, r1)"
      and s': "serverCodec.reader s' = r1" and v: "v = None" and err: "err = map_option IOError e"
      by (auto simp add: serverCodec_ReadRequestBody_def split: option.splits prod.splits)
    from read_consumed [OF assms rd] s' v err show ?thesis by auto
  qed
  from c0 c1 c2 c3 s0 s1 s2 s3 show ?thesis by blast
qed

theorem body_read_nil_target_witness:
  "reader_law buffer_io (\<lambda>s. s)
   \<and> clientCodec_ReadResponseBody buffer_io example_env
       ((NewClientCodec [1, 2, 3, 9] [] 0)\<lparr> response :=
          \<lparr> ResponseHeader.CompressType = 999, ResponseHeader.Error = [], ResponseHeader.ID = 1,
            ResponseLen = 3, ResponseHeader.Checksum = 77 \<rparr> \<rparr>) False
       = Some (None, None,
           (NewClientCodec [9] [] 0)\<lparr> response :=
          \<lparr> ResponseHeader.CompressType = 999, ResponseHeader.Error = [], ResponseHeader.ID = 1,
            ResponseLen = 3, ResponseHeader.Checksum = 77 \<rparr> \<rparr>)
   \<and> clientCodec_ReadResponseBody buffer_io example_env
       ((NewClientCodec [] [] 0)\<lparr> response :=
          \<lparr> ResponseHeader.CompressType = 999, ResponseHeader.Error = [], ResponseHeader.ID = 1,
            ResponseLen = 0, ResponseHeader.Checksum = 77 \<rparr> \<rparr>) False
       = Some (None, None,
           (NewClientCodec [] [] 0)\<lparr> response :=
          \<lparr> ResponseHeader.CompressType = 999, ResponseHeader.Error = [], ResponseHeader.ID = 1,
            ResponseLen = 0, ResponseHeader.Checksum = 77 \<rparr> \<rparr>)
   \<and> serverCodec_ReadRequestBody buffer_io example_env
       ((NewServerCodec [1, 2, 3, 9] [])\<lparr> request :=
          \<lparr> RequestHeader.CompressType = 999, Method = ''M'', RequestHeader.ID = 1,
            RequestLen = 3, RequestHeader.Checksum = 77 \<rparr> \<rparr>) False
       = Some (None, None,
           (NewServerCodec [9] [])\<lparr> request :=
          \<lparr> RequestHeader.CompressType = 999, Method = ''M'', RequestHeader.ID = 1,
            RequestLen = 3, RequestHeader.Checksum = 77 \<rparr> \<rparr>)
   \<and> serverCodec_ReadRequestBody buffer_io example_env
       ((NewServerCodec [] [])\<lparr> request :=
          \<lparr> RequestHeader.CompressType = 999, Method = ''M'', RequestHeader.ID = 1,
            RequestLen = 0, RequestHeader.Checksum = 77 \<rparr> \<rparr>) False
       = Some (None, None,
           (NewServerCodec [] [])\<lparr> request :=
          \<lparr> RequestHeader.CompressType = 999, Method = ''M'', RequestHeader.ID = 1,
            RequestLen = 0, RequestHeader.Checksum = 77 \<rparr> \<rparr>)"
proof -
  let ?c = "(NewClientCodec [1, 2, 3, 9 :: byte] ([] :: byte list) 0)\<lparr> response :=
          \<lparr> ResponseHeader.CompressType = 999, ResponseHeader.Error = [], ResponseHeader.ID = 1,
            ResponseLen = 3, ResponseHeader.Checksum = 77 \<rparr> \<rparr>"
  let ?cz = "(NewClientCodec ([] :: byte list) ([] :: byte list) 0)\<lparr> response :=
          \<lparr> ResponseHeader.CompressType = 999, ResponseHeader.Error = [], ResponseHeader.ID = 1,
            ResponseLen = 0, ResponseHeader.Checksum = 77 \<rparr> \<rparr>"
  let ?s = "(NewServerCodec [1, 2, 3, 9 :: byte] ([] :: byte list))\<lparr> request :=
          \<lparr> RequestHeader.CompressType = 999, Method = ''M'', RequestHeader.ID = 1,
            RequestLen = 3, RequestHeader.Checksum = 77 \<rparr> \<rparr>"
  let ?sz = "(NewServerCodec ([] :: byte list) ([] :: byte list))\<lparr> request :=
          \<lparr> RequestHeader.CompressType = 999, Method = ''M'', RequestHeader.ID = 1,
            RequestLen = 0, RequestHeader.Checksum = 77 \<rparr> \<rparr>"
  note rd = read_three
  have rc: "read buffer_io (clientCodec.reader ?c)
              (replicate (unat (ResponseLen (response ?c))) 0) = Some (None, [1, 2, 3], [9])"
    using rd by (simp add: NewClientCodec_def)
  have rs: "read buffer_io (serverCodec.reader ?s)
              (replicate (unat (RequestLen (request ?s))) 0) = Some (None, [1, 2, 3], [9])"
    using rd by (simp add: NewServerCodec_def)
  have zc: "ResponseLen (response ?cz) = 0" by simp
  have zs: "RequestLen (request ?sz) = 0" by simp
  note a = body_read_nil_target [OF reader_law_buffer,
      where c = ?c and env = example_env and body = "[1, 2, 3]" and ?r1.0 = "[9]" and s = ?s]
  note b = body_read_nil_target [OF reader_law_buffer,
      where c = ?cz and env = example_env and s = ?sz]
  from a rc rs have
    "clientCodec_ReadResponseBody buffer_io example_env ?c False
       = Some (None, None, ?c\<lparr> clientCodec.reader := [9] \<rparr>)"
    "serverCodec_ReadRequestBody buffer_io example_env ?s False
       = Some (None, None, ?s\<lparr> serverCodec.reader := [9] \<rparr>)"
    by (simp_all only: simp_thms)
  moreover from b zc zs have
    "clientCodec_ReadResponseBody buffer_io example_env ?cz False = Some (None, None, ?cz)"
    "serverCodec_ReadRequestBody buffer_io example_env ?sz False = Some (None, None, ?sz)"
    by (simp_all only: simp_thms)
  ultimately show ?thesis
    using reader_law_buffer by (simp add: NewClientCodec_def NewServerCodec_def)
qed

end
